theory Spec2Isabelle
  imports Main "HOL-Library.Sublist" "HOL-Library.Multiset"
begin

section \<open>Values, errors and D-Bus data\<close>

text \<open>
  The BlueZ backend of bleak mirrors the object tree of the BlueZ daemon. Property values
  are dynamically typed Python values; the model keeps the variants that D-Bus delivers.
  A \<open>Variant\<close> of dbus_fast pairs a signature with a value.
\<close>

type_synonym path = string

datatype dbus_value =
    VBool bool
  | VInt int
  | VStr string
  | VBytes "nat list"
  | VList "dbus_value list"
  | VDict "(string \<times> dbus_value) list"

datatype variant = Variant string dbus_value

text \<open>The exceptions that the modelled code can raise or let through.\<close>

datatype error =
    BleakError string
  | BleakDBusError string
  | KeyError
  | TypeError
  | RuntimeError
  | AttributeError
  | AssertionError
  | ValueError
  | CancelledError
  | ConnectError

text \<open>A Python callable is known by its identity only.\<close>

type_synonym callback = nat

section \<open>scanner.py: construction of BleakScannerBlueZDBus\<close>

text \<open>An or-pattern is a triple of advertising data type, start position and content.\<close>

type_synonym or_pattern = "int \<times> int \<times> nat list"

text \<open>\<open>BlueZScannerArgs\<close> is a TypedDict with \<open>total=False\<close>: each key may be absent.\<close>

record bluez_scanner_args =
  bz_filters :: "(string \<times> dbus_value) list option"
  bz_or_patterns :: "or_pattern list option"

text \<open>The keyword arguments that \<open>__init__\<close> reads from \<open>**kwargs\<close>.\<close>

record scanner_kwargs =
  kw_adapter :: "string option"
  kw_device :: "string option"
  kw_filters :: "(string \<times> dbus_value) list option"

record scanner =
  sc_callback :: "callback option"
  sc_service_uuids :: "string list option"
  sc_scanning_mode :: string
  sc_adapter :: string
  sc_adapter_path :: path
  sc_devices :: "path \<rightharpoonup> (string \<rightharpoonup> dbus_value)"
  sc_stop :: "nat option"
  sc_filters :: "string \<rightharpoonup> variant"
  sc_or_patterns :: "or_pattern list option"

text \<open>
  \<open>set_scanning_filter\<close>: one recognised key after the other is wrapped into a Variant
  of its D-Bus signature; an unrecognised key is only logged.
\<close>

definition set_filter_item :: "(string \<rightharpoonup> variant) \<Rightarrow> string \<times> dbus_value \<Rightarrow> (string \<rightharpoonup> variant)" where
  "set_filter_item fs kv =
     (case kv of (k, v) \<Rightarrow>
        if k = ''UUIDs'' then fs(k \<mapsto> Variant ''as'' v)
        else if k = ''RSSI'' then fs(k \<mapsto> Variant ''n'' v)
        else if k = ''Pathloss'' then fs(k \<mapsto> Variant ''n'' v)
        else if k = ''Transport'' then fs(k \<mapsto> Variant ''s'' v)
        else if k = ''DuplicateData'' then fs(k \<mapsto> Variant ''b'' v)
        else if k = ''Discoverable'' then fs(k \<mapsto> Variant ''b'' v)
        else if k = ''Pattern'' then fs(k \<mapsto> Variant ''s'' v)
        else fs)"

definition set_scanning_filter :: "(string \<times> dbus_value) list \<Rightarrow> scanner \<Rightarrow> scanner" where
  "set_scanning_filter filters sc = sc\<lparr>sc_filters := foldl set_filter_item (sc_filters sc) filters\<rparr>"

text \<open>Python truthiness of an optional list: \<open>None\<close> and the empty list are false.\<close>

definition truthy_list :: "'a list option \<Rightarrow> bool" where
  "truthy_list xs = (case xs of None \<Rightarrow> False | Some ys \<Rightarrow> ys \<noteq> [])"

text \<open>
  \<open>BleakScannerBlueZDBus.__init__\<close>. The base class initialiser (outside this
  repository slice) stores the detection callback and the service UUIDs. The statements
  follow the source in order; the only \<open>raise\<close> is the last one.
\<close>

definition scanner_init ::
  "callback option \<Rightarrow> string list option \<Rightarrow> string \<Rightarrow> bluez_scanner_args \<Rightarrow> scanner_kwargs
     \<Rightarrow> error + scanner" where
  "scanner_init detection_callback service_uuids scanning_mode bluez kwargs =
     (let adapter = (case kw_adapter kwargs of
                       Some a \<Rightarrow> a
                     | None \<Rightarrow> (case kw_device kwargs of Some d \<Rightarrow> d | None \<Rightarrow> ''hci0''));
          fs0 = [''Transport'' \<mapsto> Variant ''s'' (VStr ''le''),
                 ''DuplicateData'' \<mapsto> Variant ''b'' (VBool False)];
          fs1 = (if truthy_list service_uuids
                 then fs0(''UUIDs'' \<mapsto> Variant ''as'' (VList (map VStr (the service_uuids))))
                 else fs0);
          sc0 = \<lparr>sc_callback = detection_callback,
                 sc_service_uuids = service_uuids,
                 sc_scanning_mode = scanning_mode,
                 sc_adapter = adapter,
                 sc_adapter_path = ''/org/bluez/'' @ adapter,
                 sc_devices = Map.empty,
                 sc_stop = None,
                 sc_filters = fs1,
                 sc_or_patterns = None\<rparr>;
          filters = (case kw_filters kwargs of None \<Rightarrow> bz_filters bluez | Some f \<Rightarrow> Some f);
          sc1 = (case filters of None \<Rightarrow> sc0 | Some f \<Rightarrow> set_scanning_filter f sc0);
          sc2 = sc1\<lparr>sc_or_patterns := bz_or_patterns bluez\<rparr>
      in if scanning_mode = ''passive'' \<and> \<not> truthy_list (sc_or_patterns sc2)
         then Inl (BleakError ''passive scanning mode requires bluez or_patterns'')
         else Inr sc2)"

section \<open>manager.py: the state of BlueZManager\<close>

type_synonym props = "string \<rightharpoonup> dbus_value"
type_synonym raw_props = "(string \<times> variant) list"

text \<open>
  Modelled from the spec: the interface names of defs.py, which is outside this slice of
  the repository. They are the names of the BlueZ D-Bus API for devices, GATT services,
  GATT characteristics and GATT descriptors; the proofs use only that they differ.
\<close>

definition DEVICE_INTERFACE :: string where
  "DEVICE_INTERFACE = ''org.bluez.Device1''"

definition GATT_SERVICE_INTERFACE :: string where
  "GATT_SERVICE_INTERFACE = ''org.bluez.GattService1''"

definition GATT_CHARACTERISTIC_INTERFACE :: string where
  "GATT_CHARACTERISTIC_INTERFACE = ''org.bluez.GattCharacteristic1''"

definition GATT_DESCRIPTOR_INTERFACE :: string where
  "GATT_DESCRIPTOR_INTERFACE = ''org.bluez.GattDescriptor1''"

text \<open>
  Modelled from the spec: \<open>unpack_variants\<close> of utils.py, which is outside this slice.
  It returns the dictionary with the same keys in which every Variant is replaced by the
  value it wraps.
\<close>

fun variant_value :: "variant \<Rightarrow> dbus_value" where
  "variant_value (Variant sg v) = v"

definition unpack_variants :: "raw_props \<Rightarrow> props" where
  "unpack_variants d = map_of (map (\<lambda>kv. (fst kv, variant_value (snd kv))) d)"

definition unpack_interfaces :: "(string \<times> raw_props) list \<Rightarrow> (string \<rightharpoonup> props)" where
  "unpack_interfaces ifs = map_of (map (\<lambda>ip. (fst ip, unpack_variants (snd ip))) ifs)"

text \<open>The three NamedTuples of registrations. Tuples compare by their components.\<close>

datatype callback_and_state =
  CallbackAndState (cs_callback: callback) (cs_adapter_path: path)

datatype device_removed_callback_and_state =
  DeviceRemovedCallbackAndState (dr_callback: callback) (dr_adapter_path: path)

datatype device_watcher =
  DeviceWatcher (dw_device_path: path) (dw_on_connected_changed: callback)
    (dw_on_characteristic_value_changed: callback)

text \<open>
  The closure that \<open>_wait_condition\<close> registers captures the device path, the property
  name, the value to compare with, and its own \<open>asyncio.Event\<close>. A closure is a fresh
  Python object at every call; \<open>cc_id\<close> is that identity.
\<close>

datatype condition_callback =
  ConditionCallback (cc_id: nat) (cc_device_path: path) (cc_property_name: string)
    (cc_property_value: dbus_value)

text \<open>
  The handle classes (service, characteristic, descriptor) and the service collection
  are outside this slice. A handle is the record of the arguments its constructor is
  given, and the collection records the handles in the order they are added.
\<close>

datatype gatt_service = GattService (sv_obj: props) (sv_path: path)

datatype gatt_characteristic =
  GattCharacteristic (ch_obj: props) (ch_path: path) (ch_service_uuid: string)
    (ch_service_handle: int) (ch_max_write_without_response_size: int)

datatype gatt_descriptor =
  GattDescriptor (ds_obj: props) (ds_path: path) (ds_characteristic_uuid: string)
    (ds_characteristic_handle: int)

record service_collection =
  col_services :: "gatt_service list"
  col_characteristics :: "gatt_characteristic list"
  col_descriptors :: "gatt_descriptor list"

text \<open>
  The attributes \<open>uuid\<close> and \<open>handle\<close> that \<open>get_services\<close> reads from a service or
  characteristic handle are computed by those outside classes; they are parameters.
\<close>

record gatt_api =
  service_uuid :: "gatt_service \<Rightarrow> string"
  service_handle :: "gatt_service \<Rightarrow> int"
  characteristic_uuid :: "gatt_characteristic \<Rightarrow> string"
  characteristic_handle :: "gatt_characteristic \<Rightarrow> int"

text \<open>
  The fields of \<open>BlueZManager\<close>. \<open>bus\<close> is \<open>None\<close> before the first initialisation and
  otherwise the \<open>connected\<close> flag of the stored MessageBus. A Python set is kept as a
  duplicate-free list whose order stands for the (unspecified) iteration order.
\<close>

record manager =
  bus :: "bool option"
  properties :: "path \<rightharpoonup> (string \<rightharpoonup> props)"
  service_map :: "path \<rightharpoonup> path list"
  characteristic_map :: "path \<rightharpoonup> path list"
  descriptor_map :: "path \<rightharpoonup> path list"
  advertisement_callbacks :: "callback_and_state list"
  device_removed_callbacks :: "device_removed_callback_and_state list"
  device_watchers :: "device_watcher list"
  condition_callbacks :: "condition_callback list"
  services_cache :: "path \<rightharpoonup> service_collection"

definition manager_init :: manager where
  "manager_init = \<lparr>bus = None, properties = Map.empty, service_map = Map.empty,
     characteristic_map = Map.empty, descriptor_map = Map.empty,
     advertisement_callbacks = [], device_removed_callbacks = [], device_watchers = [],
     condition_callbacks = [], services_cache = Map.empty\<rparr>"

type_synonym 'a result = "error + 'a"

section \<open>manager.py: device watchers and external callbacks\<close>

definition add_device_watcher ::
  "path \<Rightarrow> callback \<Rightarrow> callback \<Rightarrow> manager \<Rightarrow> device_watcher \<times> manager" where
  "add_device_watcher device_path on_connected_changed on_characteristic_value_changed s =
     (let watcher = DeviceWatcher device_path on_connected_changed on_characteristic_value_changed
      in (watcher, s\<lparr>device_watchers := List.insert watcher (device_watchers s)\<rparr>))"

text \<open>\<open>set.remove\<close> raises KeyError when the element is not in the set.\<close>

definition remove_device_watcher :: "device_watcher \<Rightarrow> manager \<Rightarrow> unit result \<times> manager" where
  "remove_device_watcher watcher s =
     (if watcher \<in> set (device_watchers s)
      then (Inr (), s\<lparr>device_watchers := remove1 watcher (device_watchers s)\<rparr>)
      else (Inl KeyError, s))"

text \<open>
  The registered callbacks are code of the caller. What such a callback can do to the
  manager while the signal handler runs is to call its synchronous public methods, which
  are \<open>add_device_watcher\<close> and \<open>remove_device_watcher\<close>: the two callback lists are
  changed only by the scan coroutines, under the bus lock. A callback is therefore
  given by the calls it makes, which may depend on its arguments and on the state.
\<close>

datatype api_call =
    AddDeviceWatcher path callback callback
  | RemoveDeviceWatcher device_watcher

datatype call =
    AdvertisementCall callback path props
  | DeviceRemovedCall callback path
  | ConnectedChangedCall callback dbus_value
  | ValueChangedCall callback path dbus_value
  | EventSet nat

type_synonym cb_env = "call \<Rightarrow> manager \<Rightarrow> api_call list"

text \<open>The handler's state together with the log of the callbacks invoked so far.\<close>

type_synonym world = "manager \<times> call list"

fun run_api :: "api_call list \<Rightarrow> manager \<Rightarrow> unit result \<times> manager" where
  "run_api [] s = (Inr (), s)"
| "run_api (AddDeviceWatcher p c1 c2 # rest) s = run_api rest (snd (add_device_watcher p c1 c2 s))"
| "run_api (RemoveDeviceWatcher w # rest) s =
     (case remove_device_watcher w s of
        (Inl e, s') \<Rightarrow> (Inl e, s')
      | (Inr u, s') \<Rightarrow> run_api rest s')"

definition invoke :: "cb_env \<Rightarrow> call \<Rightarrow> world \<Rightarrow> unit result \<times> world" where
  "invoke env c w =
     (case run_api (env c (fst w)) (fst w) of (r, s') \<Rightarrow> (r, (s', snd w @ [c])))"

section \<open>manager.py: the signal handler\<close>

datatype message =
    InterfacesAdded path "(string \<times> raw_props) list"
  | InterfacesRemoved path "string list"
  | PropertiesChanged "path option" string raw_props "string list"
  | OtherSignal string
  | NotSignal

text \<open>Python's \<open>==\<close> on the values: a bool equals the integer 0 or 1.\<close>

fun py_eq :: "dbus_value \<Rightarrow> dbus_value \<Rightarrow> bool" where
  "py_eq (VBool a) (VInt b) = ((if a then 1 else 0) = b)"
| "py_eq (VInt a) (VBool b) = (a = (if b then 1 else 0))"
| "py_eq a b = (a = b)"

text \<open>\<open>self._properties[path][interface][name]\<close>: \<open>None\<close> stands for the KeyError.\<close>

definition lookup_property :: "manager \<Rightarrow> path \<Rightarrow> string \<Rightarrow> string \<Rightarrow> dbus_value option" where
  "lookup_property s p interface name =
     (case properties s p of
        None \<Rightarrow> None
      | Some ifs \<Rightarrow> (case ifs interface of None \<Rightarrow> None | Some ps \<Rightarrow> ps name))"

text \<open>\<open>index.setdefault(parent, set()).add(child)\<close>.\<close>

definition index_add :: "(path \<rightharpoonup> path list) \<Rightarrow> path \<Rightarrow> path \<Rightarrow> (path \<rightharpoonup> path list)" where
  "index_add m parent child =
     m(parent \<mapsto> List.insert child (case m parent of None \<Rightarrow> [] | Some cs \<Rightarrow> cs))"

text \<open>
  \<open>service_props["Device"]\<close> and its two siblings read the parent reference, a D-Bus
  object path (a \<open>str\<close> in the TypedDicts of defs.py). A missing key raises KeyError;
  a value of another type is outside the declared type and is reported as TypeError.
\<close>

definition parent_ref :: "props \<Rightarrow> string \<Rightarrow> path result" where
  "parent_ref ps key =
     (case ps key of
        None \<Rightarrow> Inl KeyError
      | Some (VStr parent) \<Rightarrow> Inr parent
      | Some v \<Rightarrow> Inl TypeError)"

text \<open>The \<open>if\<close>/\<open>elif\<close> chain after the table update in the \<open>InterfacesAdded\<close> branch.\<close>

definition index_interface :: "string \<Rightarrow> props \<Rightarrow> path \<Rightarrow> manager \<Rightarrow> manager result" where
  "index_interface interface unpacked_props obj_path s =
     (if interface = GATT_SERVICE_INTERFACE then
        (case parent_ref unpacked_props ''Device'' of
           Inl e \<Rightarrow> Inl e
         | Inr d \<Rightarrow> Inr (s\<lparr>service_map := index_add (service_map s) d obj_path\<rparr>))
      else if interface = GATT_CHARACTERISTIC_INTERFACE then
        (case parent_ref unpacked_props ''Service'' of
           Inl e \<Rightarrow> Inl e
         | Inr d \<Rightarrow> Inr (s\<lparr>characteristic_map := index_add (characteristic_map s) d obj_path\<rparr>))
      else if interface = GATT_DESCRIPTOR_INTERFACE then
        (case parent_ref unpacked_props ''Characteristic'' of
           Inl e \<Rightarrow> Inl e
         | Inr d \<Rightarrow> Inr (s\<lparr>descriptor_map := index_add (descriptor_map s) d obj_path\<rparr>))
      else Inr s)"

text \<open>
  \<open>_run_advertisement_callbacks\<close> walks the list \<open>self._advertisement_callbacks\<close>
  itself, not a copy. The callbacks cannot change that list (see above), so the walk is
  over the list as it is when the loop starts. The parameter \<open>changed\<close> is unused in the
  source as well.
\<close>

fun advertisement_loop ::
  "cb_env \<Rightarrow> path \<Rightarrow> props \<Rightarrow> callback_and_state list \<Rightarrow> world \<Rightarrow> unit result \<times> world" where
  "advertisement_loop env device_path device [] w = (Inr (), w)"
| "advertisement_loop env device_path device (c # cs) w =
     (if \<not> prefix (cs_adapter_path c) device_path
      then advertisement_loop env device_path device cs w
      else (case invoke env (AdvertisementCall (cs_callback c) device_path device) w of
              (Inl e, w') \<Rightarrow> (Inl e, w')
            | (Inr u, w') \<Rightarrow> advertisement_loop env device_path device cs w'))"

definition run_advertisement_callbacks ::
  "cb_env \<Rightarrow> path \<Rightarrow> props \<Rightarrow> string list \<Rightarrow> world \<Rightarrow> unit result \<times> world" where
  "run_advertisement_callbacks env device_path device changed w =
     advertisement_loop env device_path device (advertisement_callbacks (fst w)) w"

text \<open>The \<open>InterfacesAdded\<close> branch: the loop over \<open>interfaces_and_props.items()\<close>.\<close>

definition table_add :: "path \<Rightarrow> string \<Rightarrow> props \<Rightarrow> manager \<Rightarrow> manager" where
  "table_add obj_path interface unpacked_props s =
     s\<lparr>properties := (properties s)
          (obj_path \<mapsto> (case properties s obj_path of None \<Rightarrow> Map.empty | Some ifs \<Rightarrow> ifs)
                          (interface \<mapsto> unpacked_props))\<rparr>"

fun interfaces_added ::
  "cb_env \<Rightarrow> path \<Rightarrow> (string \<times> raw_props) list \<Rightarrow> world \<Rightarrow> unit result \<times> world" where
  "interfaces_added env obj_path [] w = (Inr (), w)"
| "interfaces_added env obj_path (ip # rest) w =
     (let interface = fst ip;
          unpacked_props = unpack_variants (snd ip);
          s1 = table_add obj_path interface unpacked_props (fst w)
      in case index_interface interface unpacked_props obj_path s1 of
           Inl e \<Rightarrow> (Inl e, (s1, snd w))
         | Inr s2 \<Rightarrow>
             if interface = DEVICE_INTERFACE then
               (case run_advertisement_callbacks env obj_path unpacked_props (map fst (snd ip))
                       (s2, snd w) of
                  (Inl e, w') \<Rightarrow> (Inl e, w')
                | (Inr u, w') \<Rightarrow> interfaces_added env obj_path rest w')
             else interfaces_added env obj_path rest (s2, snd w))"

text \<open>
  The \<open>InterfacesRemoved\<close> branch. \<open>del d[k]\<close> inside \<open>try ... except KeyError: pass\<close>
  removes the key when it is there and does nothing otherwise.
\<close>

definition table_remove :: "path \<Rightarrow> string \<Rightarrow> manager \<Rightarrow> manager" where
  "table_remove obj_path interface s =
     (case properties s obj_path of
        None \<Rightarrow> s
      | Some ifs \<Rightarrow> s\<lparr>properties := (properties s)(obj_path \<mapsto> ifs(interface := None))\<rparr>)"

fun device_removed_loop ::
  "cb_env \<Rightarrow> path \<Rightarrow> device_removed_callback_and_state list \<Rightarrow> world \<Rightarrow> unit result \<times> world" where
  "device_removed_loop env obj_path [] w = (Inr (), w)"
| "device_removed_loop env obj_path (c # cs) w =
     (if prefix (dr_adapter_path c) obj_path
      then (case invoke env (DeviceRemovedCall (dr_callback c) obj_path) w of
              (Inl e, w') \<Rightarrow> (Inl e, w')
            | (Inr u, w') \<Rightarrow> device_removed_loop env obj_path cs w')
      else device_removed_loop env obj_path cs w)"

fun interfaces_removed ::
  "cb_env \<Rightarrow> path \<Rightarrow> string list \<Rightarrow> world \<Rightarrow> unit result \<times> world" where
  "interfaces_removed env obj_path [] w = (Inr (), w)"
| "interfaces_removed env obj_path (interface # rest) w =
     (let s1 = table_remove obj_path interface (fst w)
      in if interface = DEVICE_INTERFACE then
           (let s2 = s1\<lparr>services_cache := (services_cache s1)(obj_path := None),
                        service_map := (service_map s1)(obj_path := None)\<rparr>
            in case device_removed_loop env obj_path (device_removed_callbacks s2) (s2, snd w) of
                 (Inl e, w') \<Rightarrow> (Inl e, w')
               | (Inr u, w') \<Rightarrow> interfaces_removed env obj_path rest w')
         else if interface = GATT_SERVICE_INTERFACE then
           interfaces_removed env obj_path rest
             (s1\<lparr>characteristic_map := (characteristic_map s1)(obj_path := None)\<rparr>, snd w)
         else if interface = GATT_CHARACTERISTIC_INTERFACE then
           interfaces_removed env obj_path rest
             (s1\<lparr>descriptor_map := (descriptor_map s1)(obj_path := None)\<rparr>, snd w)
         else interfaces_removed env obj_path rest (s1, snd w))"

text \<open>
  The \<open>PropertiesChanged\<close> branch. \<open>del self_interface[name]\<close> is not guarded: a name
  that is not in the dictionary raises KeyError, with the names before it deleted.
\<close>

fun delete_invalidated :: "string list \<Rightarrow> props \<Rightarrow> unit result \<times> props" where
  "delete_invalidated [] ps = (Inr (), ps)"
| "delete_invalidated (name # names) ps =
     (case ps name of
        None \<Rightarrow> (Inl KeyError, ps)
      | Some v \<Rightarrow> delete_invalidated names (ps(name := None)))"

text \<open>
  The loop over \<open>self._condition_callbacks\<close>. Each closure compares the property with
  its value and sets its event; it changes no registration.
\<close>

fun condition_loop :: "condition_callback list \<Rightarrow> world \<Rightarrow> unit result \<times> world" where
  "condition_loop [] w = (Inr (), w)"
| "condition_loop (c # cs) w =
     (case lookup_property (fst w) (cc_device_path c) DEVICE_INTERFACE (cc_property_name c) of
        None \<Rightarrow> (Inl KeyError, w)
      | Some v \<Rightarrow>
          if py_eq v (cc_property_value c)
          then condition_loop cs (fst w, snd w @ [EventSet (cc_id c)])
          else condition_loop cs w)"

text \<open>
  The loop over \<open>self._device_watchers.copy()\<close> for a change of \<open>Connected\<close>: the
  watchers are those of the copy, whatever the callbacks do to the set meanwhile.
\<close>

fun connected_loop ::
  "cb_env \<Rightarrow> path \<Rightarrow> props \<Rightarrow> device_watcher list \<Rightarrow> world \<Rightarrow> unit result \<times> world" where
  "connected_loop env msg_path self_interface [] w = (Inr (), w)"
| "connected_loop env msg_path self_interface (x # xs) w =
     (if msg_path = dw_device_path x then
        (case self_interface ''Connected'' of
           None \<Rightarrow> (Inl KeyError, w)
         | Some v \<Rightarrow>
             (case invoke env (ConnectedChangedCall (dw_on_connected_changed x) v) w of
                (Inl e, w') \<Rightarrow> (Inl e, w')
              | (Inr u, w') \<Rightarrow> connected_loop env msg_path self_interface xs w'))
      else connected_loop env msg_path self_interface xs w)"

text \<open>
  The loop over \<open>self._device_watchers\<close> for a change of \<open>Value\<close> walks the set itself.
  A Python set iterator raises RuntimeError (\<open>Set changed size during iteration\<close>)
  whenever it is asked for the next element, the last request included, and the size of
  the set differs from the size when the iteration began; \<open>n\<close> is that size. An element
  removed meanwhile is not produced. Whether an element added meanwhile with the size
  restored is produced depends on the hash table and is left out.
\<close>

fun value_loop ::
  "cb_env \<Rightarrow> nat \<Rightarrow> path \<Rightarrow> props \<Rightarrow> device_watcher list \<Rightarrow> world \<Rightarrow> unit result \<times> world" where
  "value_loop env n msg_path self_interface [] w =
     (if length (device_watchers (fst w)) \<noteq> n then (Inl RuntimeError, w) else (Inr (), w))"
| "value_loop env n msg_path self_interface (x # xs) w =
     (if length (device_watchers (fst w)) \<noteq> n then (Inl RuntimeError, w)
      else if x \<notin> set (device_watchers (fst w)) then value_loop env n msg_path self_interface xs w
      else if prefix (dw_device_path x) msg_path then
        (case self_interface ''Value'' of
           None \<Rightarrow> (Inl KeyError, w)
         | Some v \<Rightarrow>
             (case invoke env (ValueChangedCall (dw_on_characteristic_value_changed x) msg_path v) w of
                (Inl e, w') \<Rightarrow> (Inl e, w')
              | (Inr u, w') \<Rightarrow> value_loop env n msg_path self_interface xs w'))
      else value_loop env n msg_path self_interface xs w)"

definition table_set :: "path \<Rightarrow> string \<Rightarrow> props \<Rightarrow> manager \<Rightarrow> manager" where
  "table_set p interface ps s =
     (case properties s p of
        None \<Rightarrow> s
      | Some ifs \<Rightarrow> s\<lparr>properties := (properties s)(p \<mapsto> ifs(interface \<mapsto> ps))\<rparr>)"

definition changed_callbacks ::
  "cb_env \<Rightarrow> path \<Rightarrow> string \<Rightarrow> props \<Rightarrow> string list \<Rightarrow> world \<Rightarrow> unit result \<times> world" where
  "changed_callbacks env msg_path interface self_interface changed w =
     (if interface = DEVICE_INTERFACE then
        (case run_advertisement_callbacks env msg_path self_interface changed w of
           (Inl e, w1) \<Rightarrow> (Inl e, w1)
         | (Inr u, w1) \<Rightarrow>
             (case condition_loop (condition_callbacks (fst w1)) w1 of
                (Inl e, w2) \<Rightarrow> (Inl e, w2)
              | (Inr u, w2) \<Rightarrow>
                  if ''Connected'' \<in> set changed
                  then connected_loop env msg_path self_interface (device_watchers (fst w2)) w2
                  else (Inr (), w2)))
      else if interface = GATT_CHARACTERISTIC_INTERFACE then
        (if ''Value'' \<in> set changed
         then value_loop env (length (device_watchers (fst w))) msg_path self_interface
                (device_watchers (fst w)) w
         else (Inr (), w))
      else (Inr (), w))"

definition properties_changed ::
  "cb_env \<Rightarrow> path option \<Rightarrow> string \<Rightarrow> raw_props \<Rightarrow> string list \<Rightarrow> world \<Rightarrow> unit result \<times> world" where
  "properties_changed env msg_path interface changed invalidated w =
     (case msg_path of
        None \<Rightarrow> (Inl AssertionError, w)
      | Some p \<Rightarrow>
          (case properties (fst w) p of
             None \<Rightarrow> (Inr (), w)
           | Some ifs \<Rightarrow>
               (case ifs interface of
                  None \<Rightarrow> (Inr (), w)
                | Some self_interface \<Rightarrow>
                    (case delete_invalidated invalidated (self_interface ++ unpack_variants changed) of
                       (Inl e, ps) \<Rightarrow> (Inl e, (table_set p interface ps (fst w), snd w))
                     | (Inr u, ps) \<Rightarrow>
                         changed_callbacks env p interface ps (map fst changed)
                           (table_set p interface ps (fst w), snd w)))))"

text \<open>\<open>_parse_msg\<close>: anything but the three signals is ignored.\<close>

fun parse_msg :: "cb_env \<Rightarrow> message \<Rightarrow> world \<Rightarrow> unit result \<times> world" where
  "parse_msg env NotSignal w = (Inr (), w)"
| "parse_msg env (OtherSignal member) w = (Inr (), w)"
| "parse_msg env (InterfacesAdded obj_path interfaces_and_props) w =
     interfaces_added env obj_path interfaces_and_props w"
| "parse_msg env (InterfacesRemoved obj_path interfaces) w =
     interfaces_removed env obj_path interfaces w"
| "parse_msg env (PropertiesChanged msg_path interface changed invalidated) w =
     properties_changed env msg_path interface changed invalidated w"

text \<open>
  The bus delivers signals one at a time, in order. An exception that leaves the handler
  is caught by the message bus; the state keeps what the handler had done before.
\<close>

fun deliver :: "cb_env \<Rightarrow> message list \<Rightarrow> world \<Rightarrow> world" where
  "deliver env [] w = w"
| "deliver env (m # ms) w = deliver env ms (snd (parse_msg env m w))"

section \<open>manager.py: remote calls and initialisation\<close>

text \<open>
  A remote call is awaited: while the coroutine is suspended the bus may deliver signals
  to the handler, and then the reply arrives. The environment of a call is the pair of
  those signals and the reply.
\<close>

datatype 'a reply = MethodReturn 'a | ErrorReply string

type_synonym 'a awaited = "message list \<times> 'a reply"

text \<open>What the manager does on the bus, in order.\<close>

datatype bus_action =
    BusConnect
  | AddMessageHandler
  | AddMatch string
  | MethodCall path string
  | Export path
  | Unexport path
  | BusDisconnect

text \<open>
  Modelled from the spec: \<open>assert_reply\<close> of utils.py, which is outside this slice. An
  error reply of the daemon is surfaced to the caller as an error that carries the
  machine-readable error name.
\<close>

definition assert_reply :: "'a reply \<Rightarrow> 'a result" where
  "assert_reply r = (case r of MethodReturn b \<Rightarrow> Inr b | ErrorReply name \<Rightarrow> Inl (BleakDBusError name))"

definition await_reply :: "cb_env \<Rightarrow> 'a awaited \<Rightarrow> world \<Rightarrow> 'a reply \<times> world" where
  "await_reply env a w = (snd a, deliver env (fst a) w)"

text \<open>\<open>reply = await ...\<close> followed by \<open>assert_reply(reply)\<close>.\<close>

definition await_checked :: "cb_env \<Rightarrow> 'a awaited \<Rightarrow> world \<Rightarrow> 'a result \<times> world" where
  "await_checked env a w = (case await_reply env a w of (r, w') \<Rightarrow> (assert_reply r, w'))"

type_synonym managed_objects = "(path \<times> (string \<times> raw_props) list) list"

text \<open>
  \<open>props.get(interface)\<close> followed by the truth test \<open>if service_props:\<close>: the entry is
  used when it is there and not empty. Unpacking keeps the keys, so emptiness is read
  off the raw dictionary.
\<close>

definition get_nonempty :: "(string \<times> raw_props) list \<Rightarrow> string \<Rightarrow> props option" where
  "get_nonempty interfaces key =
     (case map_of interfaces key of
        None \<Rightarrow> None
      | Some raw \<Rightarrow> if raw = [] then None else Some (unpack_variants raw))"

definition load_index ::
  "(string \<times> raw_props) list \<Rightarrow> string \<Rightarrow> string \<Rightarrow> path \<Rightarrow> (path \<rightharpoonup> path list)
     \<Rightarrow> (path \<rightharpoonup> path list) result" where
  "load_index interfaces interface key obj_path m =
     (case get_nonempty interfaces interface of
        None \<Rightarrow> Inr m
      | Some ps \<Rightarrow> (case parent_ref ps key of Inl e \<Rightarrow> Inl e | Inr d \<Rightarrow> Inr (index_add m d obj_path)))"

text \<open>The loop over \<open>reply.body[0].items()\<close> at the end of \<open>async_init\<close>.\<close>

fun load_objects :: "managed_objects \<Rightarrow> manager \<Rightarrow> unit result \<times> manager" where
  "load_objects [] s = (Inr (), s)"
| "load_objects (pi # rest) s =
     (let obj_path = fst pi;
          interfaces = snd pi;
          s1 = s\<lparr>properties := (properties s)(obj_path \<mapsto> unpack_interfaces interfaces)\<rparr>
      in case load_index interfaces GATT_SERVICE_INTERFACE ''Device'' obj_path (service_map s1) of
           Inl e \<Rightarrow> (Inl e, s1)
         | Inr sm \<Rightarrow>
             (let s2 = s1\<lparr>service_map := sm\<rparr>
              in case load_index interfaces GATT_CHARACTERISTIC_INTERFACE ''Service'' obj_path
                        (characteristic_map s2) of
                   Inl e \<Rightarrow> (Inl e, s2)
                 | Inr cm \<Rightarrow>
                     (let s3 = s2\<lparr>characteristic_map := cm\<rparr>
                      in case load_index interfaces GATT_DESCRIPTOR_INTERFACE ''Characteristic''
                                obj_path (descriptor_map s3) of
                           Inl e \<Rightarrow> (Inl e, s3)
                         | Inr dm \<Rightarrow> load_objects rest (s3\<lparr>descriptor_map := dm\<rparr>))))"

definition clear_tables :: "manager \<Rightarrow> manager" where
  "clear_tables s = s\<lparr>properties := Map.empty, service_map := Map.empty,
     characteristic_map := Map.empty, descriptor_map := Map.empty\<rparr>"

record init_env =
  ie_connect :: "unit result"
  ie_match_added :: "unit awaited"
  ie_match_removed :: "unit awaited"
  ie_match_changed :: "unit awaited"
  ie_managed_objects :: "managed_objects awaited"

text \<open>The body of the \<open>try\<close> block of \<open>async_init\<close>, with the bus actions it performs.\<close>

definition init_setup :: "cb_env \<Rightarrow> init_env \<Rightarrow> world \<Rightarrow> unit result \<times> world \<times> bus_action list" where
  "init_setup env ie w =
     (let t1 = [AddMessageHandler, AddMatch ''InterfacesAdded''];
          t2 = t1 @ [AddMatch ''InterfacesRemoved''];
          t3 = t2 @ [AddMatch ''PropertiesChanged''];
          t4 = t3 @ [MethodCall ''/'' ''GetManagedObjects'']
      in case await_checked env (ie_match_added ie) w of
           (Inl e, w1) \<Rightarrow> (Inl e, w1, t1)
         | (Inr u1, w1) \<Rightarrow>
             (case await_checked env (ie_match_removed ie) w1 of
                (Inl e, w2) \<Rightarrow> (Inl e, w2, t2)
              | (Inr u2, w2) \<Rightarrow>
                  (case await_checked env (ie_match_changed ie) w2 of
                     (Inl e, w3) \<Rightarrow> (Inl e, w3, t3)
                   | (Inr u3, w3) \<Rightarrow>
                       (case await_checked env (ie_managed_objects ie) w3 of
                          (Inl e, w4) \<Rightarrow> (Inl e, w4, t4)
                        | (Inr objects, w4) \<Rightarrow>
                            (case load_objects objects (clear_tables (fst w4)) of
                               (r5, s5) \<Rightarrow> (r5, (s5, snd w4), t4))))))"

text \<open>
  \<open>async_init\<close>, under the bus lock. \<open>bus.connect()\<close> is outside the \<open>try\<close>; a failure
  inside it disconnects the new bus and re-raises without storing the bus.
\<close>

definition async_init :: "cb_env \<Rightarrow> init_env \<Rightarrow> world \<Rightarrow> unit result \<times> world \<times> bus_action list" where
  "async_init env ie w =
     (if bus (fst w) = Some True then (Inr (), w, [])
      else
        (let w0 = ((fst w)\<lparr>services_cache := Map.empty\<rparr>, snd w)
         in case ie_connect ie of
              Inl e \<Rightarrow> (Inl e, w0, [BusConnect])
            | Inr u \<Rightarrow>
                (case init_setup env ie w0 of
                   (Inl e, w1, tr) \<Rightarrow> (Inl e, w1, BusConnect # tr @ [BusDisconnect])
                 | (Inr u', w1, tr) \<Rightarrow>
                     (Inr (), ((fst w1)\<lparr>bus := Some True\<rparr>, snd w1), BusConnect # tr))))"

section \<open>manager.py: starting a scan\<close>

text \<open>\<open>str.split(sep)\<close> for a one-character separator; the result is never empty.\<close>

fun str_split :: "string \<Rightarrow> char \<Rightarrow> string list" where
  "str_split [] sep = [[]]"
| "str_split (c # cs) sep =
     (if c = sep then [] # str_split cs sep
      else (case str_split cs sep of
              [] \<Rightarrow> [[c]]
            | piece # pieces \<Rightarrow> (c # piece) # pieces))"

definition adapter_not_found :: "path \<Rightarrow> error" where
  "adapter_not_found adapter_path =
     BleakError (''adapter '' @ [CHR 0x27] @ last (str_split adapter_path CHR ''/'') @ [CHR 0x27]
                 @ '' not found'')"

text \<open>\<open>list.remove(x)\<close> removes the first element equal to \<open>x\<close> and raises ValueError if none is.\<close>

definition list_remove :: "'a \<Rightarrow> 'a list \<Rightarrow> 'a list result" where
  "list_remove x xs = (if x \<in> set xs then Inr (remove1 x xs) else Inl ValueError)"

text \<open>\<open>self._bus.call(...)\<close>: without a bus object the attribute access fails.\<close>

definition bus_call :: "cb_env \<Rightarrow> 'a awaited \<Rightarrow> world \<Rightarrow> ('a reply) result \<times> world" where
  "bus_call env a w =
     (if bus (fst w) = None then (Inl AttributeError, w)
      else (case await_reply env a w of (r, w') \<Rightarrow> (Inr r, w')))"

text \<open>The token that stands for the returned \<open>stop\<close> coroutine function: what it closes over.\<close>

datatype scan_handle =
    ActiveStop callback_and_state device_removed_callback_and_state path
  | PassiveStop callback_and_state device_removed_callback_and_state path path

definition register_callbacks ::
  "callback_and_state \<Rightarrow> device_removed_callback_and_state \<Rightarrow> manager \<Rightarrow> manager" where
  "register_callbacks cs ds s =
     s\<lparr>advertisement_callbacks := advertisement_callbacks s @ [cs],
       device_removed_callbacks := device_removed_callbacks s @ [ds]\<rparr>"

text \<open>The \<open>except BaseException\<close> clause of both scan methods; \<open>e\<close> is re-raised.\<close>

definition rollback_callbacks ::
  "callback_and_state \<Rightarrow> device_removed_callback_and_state \<Rightarrow> error \<Rightarrow> manager \<Rightarrow> error \<times> manager" where
  "rollback_callbacks cs ds e s =
     (case list_remove cs (advertisement_callbacks s) of
        Inl e1 \<Rightarrow> (e1, s)
      | Inr acs \<Rightarrow>
          (let s1 = s\<lparr>advertisement_callbacks := acs\<rparr>
           in case list_remove ds (device_removed_callbacks s1) of
                Inl e2 \<Rightarrow> (e2, s1)
              | Inr dcs \<Rightarrow> (e, s1\<lparr>device_removed_callbacks := dcs\<rparr>)))"

record active_env =
  ae_set_discovery_filter :: "unit awaited"
  ae_start_discovery :: "unit awaited"

definition active_start ::
  "cb_env \<Rightarrow> active_env \<Rightarrow> path \<Rightarrow> world \<Rightarrow> unit result \<times> world \<times> bus_action list" where
  "active_start env ae adapter_path w =
     (case bus_call env (ae_set_discovery_filter ae) w of
        (Inl e, w1) \<Rightarrow> (Inl e, w1, [])
      | (Inr r1, w1) \<Rightarrow>
          (let t1 = [MethodCall adapter_path ''SetDiscoveryFilter''] in
           case assert_reply r1 of
             Inl e \<Rightarrow> (Inl e, w1, t1)
           | Inr u1 \<Rightarrow>
               (case bus_call env (ae_start_discovery ae) w1 of
                  (Inl e, w2) \<Rightarrow> (Inl e, w2, t1)
                | (Inr r2, w2) \<Rightarrow>
                    (let t2 = t1 @ [MethodCall adapter_path ''StartDiscovery''] in
                     case assert_reply r2 of
                       Inl e \<Rightarrow> (Inl e, w2, t2)
                     | Inr u2 \<Rightarrow> (Inr (), w2, t2)))))"

definition active_scan ::
  "cb_env \<Rightarrow> active_env \<Rightarrow> path \<Rightarrow> (string \<rightharpoonup> variant) \<Rightarrow> callback \<Rightarrow> callback \<Rightarrow> world
     \<Rightarrow> scan_handle result \<times> world \<times> bus_action list" where
  "active_scan env ae adapter_path filters advertisement_callback device_removed_callback w =
     (if properties (fst w) adapter_path = None then (Inl (adapter_not_found adapter_path), w, [])
      else
        (let cs = CallbackAndState advertisement_callback adapter_path;
             ds = DeviceRemovedCallbackAndState device_removed_callback adapter_path;
             w0 = (register_callbacks cs ds (fst w), snd w)
         in case active_start env ae adapter_path w0 of
              (Inr u, w1, tr) \<Rightarrow> (Inr (ActiveStop cs ds adapter_path), w1, tr)
            | (Inl e, w1, tr) \<Rightarrow>
                (case rollback_callbacks cs ds e (fst w1) of
                   (e', s2) \<Rightarrow> (Inl e', (s2, snd w1), tr))))"

record passive_env =
  pe_monitor_path :: path
  pe_register_monitor :: "unit awaited"

definition passive_start ::
  "cb_env \<Rightarrow> passive_env \<Rightarrow> path \<Rightarrow> world \<Rightarrow> unit result \<times> world \<times> bus_action list" where
  "passive_start env pe adapter_path w =
     (case bus_call env (pe_register_monitor pe) w of
        (Inl e, w1) \<Rightarrow> (Inl e, w1, [])
      | (Inr r1, w1) \<Rightarrow>
          (let t1 = [MethodCall adapter_path ''RegisterMonitor''] in
           if r1 = ErrorReply ''org.freedesktop.DBus.Error.UnknownMethod'' then
             (Inl (BleakError ''passive scanning on Linux requires BlueZ >= 5.55 with --experimental enabled and Linux kernel >= 5.10''),
              w1, t1)
           else
             (case assert_reply r1 of
                Inl e \<Rightarrow> (Inl e, w1, t1)
              | Inr u1 \<Rightarrow> (Inr (), w1, t1 @ [Export (pe_monitor_path pe)]))))"

definition passive_scan ::
  "cb_env \<Rightarrow> passive_env \<Rightarrow> path \<Rightarrow> or_pattern list \<Rightarrow> callback \<Rightarrow> callback \<Rightarrow> world
     \<Rightarrow> scan_handle result \<times> world \<times> bus_action list" where
  "passive_scan env pe adapter_path filters advertisement_callback device_removed_callback w =
     (if properties (fst w) adapter_path = None then (Inl (adapter_not_found adapter_path), w, [])
      else
        (let cs = CallbackAndState advertisement_callback adapter_path;
             ds = DeviceRemovedCallbackAndState device_removed_callback adapter_path;
             w0 = (register_callbacks cs ds (fst w), snd w)
         in case passive_start env pe adapter_path w0 of
              (Inr u, w1, tr) \<Rightarrow> (Inr (PassiveStop cs ds adapter_path (pe_monitor_path pe)), w1, tr)
            | (Inl e, w1, tr) \<Rightarrow>
                (case rollback_callbacks cs ds e (fst w1) of
                   (e', s2) \<Rightarrow> (Inl e', (s2, snd w1), tr))))"

section \<open>manager.py: waiting for a condition and building the services\<close>

text \<open>
  While a coroutine is suspended in \<open>await event.wait()\<close> the event loop either delivers
  a signal to the handler or cancels the waiting task. A schedule is the list of what
  happens, in order; the waiter resumes after the handler run that set its event. With
  the schedule exhausted and the event not set the coroutine has not returned: \<open>None\<close>.
\<close>

datatype wait_event = Signal message | Cancel

fun await_event ::
  "cb_env \<Rightarrow> nat \<Rightarrow> wait_event list \<Rightarrow> world \<Rightarrow> unit result option \<times> world \<times> wait_event list" where
  "await_event env cid [] w = (None, w, [])"
| "await_event env cid (Cancel # rest) w = (Some (Inl CancelledError), w, rest)"
| "await_event env cid (Signal m # rest) w =
     (let w' = snd (parse_msg env m w)
      in if EventSet cid \<in> set (drop (length (snd w)) (snd w'))
         then (Some (Inr ()), w', rest)
         else await_event env cid rest w')"

text \<open>The \<open>finally\<close> clause of \<open>_wait_condition\<close>: \<open>set.remove\<close>, which may raise KeyError.\<close>

definition unregister_condition ::
  "condition_callback \<Rightarrow> unit result \<Rightarrow> manager \<Rightarrow> unit result \<times> manager" where
  "unregister_condition cb r s =
     (if cb \<in> set (condition_callbacks s)
      then (r, s\<lparr>condition_callbacks := remove1 cb (condition_callbacks s)\<rparr>)
      else (Inl KeyError, s))"

text \<open>
  \<open>_wait_condition\<close>. \<open>cid\<close> is the identity of the closure (and of its event) that this
  call creates. The third component of the result is the rest of the schedule.
\<close>

definition wait_condition ::
  "cb_env \<Rightarrow> nat \<Rightarrow> path \<Rightarrow> string \<Rightarrow> dbus_value \<Rightarrow> wait_event list \<Rightarrow> world
     \<Rightarrow> unit result option \<times> world \<times> wait_event list" where
  "wait_condition env cid device_path property_name property_value sched w =
     (case lookup_property (fst w) device_path DEVICE_INTERFACE property_name of
        None \<Rightarrow> (Some (Inl KeyError), w, sched)
      | Some v \<Rightarrow>
          if py_eq v property_value then (Some (Inr ()), w, sched)
          else
            (let cb = ConditionCallback cid device_path property_name property_value;
                 w0 = ((fst w)\<lparr>condition_callbacks := List.insert cb (condition_callbacks (fst w))\<rparr>,
                       snd w)
             in case await_event env cid sched w0 of
                  (None, w1, rest) \<Rightarrow> (None, w1, rest)
                | (Some r, w1, rest) \<Rightarrow>
                    (case unregister_condition cb r (fst w1) of
                       (r', s2) \<Rightarrow> (Some r', (s2, snd w1), rest))))"

text \<open>\<open>self._properties[path][interface]\<close>: \<open>None\<close> stands for the KeyError.\<close>

definition lookup_interface :: "manager \<Rightarrow> path \<Rightarrow> string \<Rightarrow> props option" where
  "lookup_interface s p interface =
     (case properties s p of None \<Rightarrow> None | Some ifs \<Rightarrow> ifs interface)"

text \<open>\<open>index.get(path, set())\<close>.\<close>

definition children :: "(path \<rightharpoonup> path list) \<Rightarrow> path \<Rightarrow> path list" where
  "children m p = (case m p of None \<Rightarrow> [] | Some cs \<Rightarrow> cs)"

text \<open>
  \<open>char_props.get("MTU", 23) - 3\<close>. A Python bool is an integer; subtraction from a
  value of another type raises TypeError.
\<close>

definition max_write_size :: "props \<Rightarrow> int result" where
  "max_write_size char_props =
     (case (case char_props ''MTU'' of None \<Rightarrow> VInt 23 | Some v \<Rightarrow> v) of
        VInt m \<Rightarrow> Inr (m - 3)
      | VBool b \<Rightarrow> Inr ((if b then 1 else 0) - 3)
      | _ \<Rightarrow> Inl TypeError)"

fun build_descriptors ::
  "gatt_api \<Rightarrow> manager \<Rightarrow> gatt_characteristic \<Rightarrow> path list \<Rightarrow> service_collection
     \<Rightarrow> service_collection result" where
  "build_descriptors api s char [] col = Inr col"
| "build_descriptors api s char (desc_path # rest) col =
     (case lookup_interface s desc_path GATT_DESCRIPTOR_INTERFACE of
        None \<Rightarrow> Inl KeyError
      | Some desc_props \<Rightarrow>
          build_descriptors api s char rest
            (col\<lparr>col_descriptors := col_descriptors col @
                   [GattDescriptor desc_props desc_path (characteristic_uuid api char)
                      (characteristic_handle api char)]\<rparr>))"

fun build_characteristics ::
  "gatt_api \<Rightarrow> manager \<Rightarrow> gatt_service \<Rightarrow> path list \<Rightarrow> service_collection
     \<Rightarrow> service_collection result" where
  "build_characteristics api s service [] col = Inr col"
| "build_characteristics api s service (char_path # rest) col =
     (case lookup_interface s char_path GATT_CHARACTERISTIC_INTERFACE of
        None \<Rightarrow> Inl KeyError
      | Some char_props \<Rightarrow>
          (case max_write_size char_props of
             Inl e \<Rightarrow> Inl e
           | Inr max_size \<Rightarrow>
               (let char = GattCharacteristic char_props char_path (service_uuid api service)
                             (service_handle api service) max_size;
                    col1 = col\<lparr>col_characteristics := col_characteristics col @ [char]\<rparr>
                in case build_descriptors api s char (children (descriptor_map s) char_path) col1 of
                     Inl e \<Rightarrow> Inl e
                   | Inr col2 \<Rightarrow> build_characteristics api s service rest col2)))"

fun build_services ::
  "gatt_api \<Rightarrow> manager \<Rightarrow> path list \<Rightarrow> service_collection \<Rightarrow> service_collection result" where
  "build_services api s [] col = Inr col"
| "build_services api s (service_path # rest) col =
     (case lookup_interface s service_path GATT_SERVICE_INTERFACE of
        None \<Rightarrow> Inl KeyError
      | Some service_props \<Rightarrow>
          (let service = GattService service_props service_path;
               col1 = col\<lparr>col_services := col_services col @ [service]\<rparr>
           in case build_characteristics api s service
                     (children (characteristic_map s) service_path) col1 of
                Inl e \<Rightarrow> Inl e
              | Inr col2 \<Rightarrow> build_services api s rest col2))"

definition empty_collection :: service_collection where
  "empty_collection = \<lparr>col_services = [], col_characteristics = [], col_descriptors = []\<rparr>"

text \<open>\<open>get_services\<close>; the result \<open>None\<close> is a call that has not returned.\<close>

definition get_services ::
  "gatt_api \<Rightarrow> cb_env \<Rightarrow> nat \<Rightarrow> path \<Rightarrow> bool \<Rightarrow> wait_event list \<Rightarrow> world
     \<Rightarrow> service_collection result option \<times> world \<times> wait_event list" where
  "get_services api env cid device_path use_cached sched w =
     (if use_cached \<and> services_cache (fst w) device_path \<noteq> None
      then (Some (Inr (the (services_cache (fst w) device_path))), w, sched)
      else
        (case wait_condition env cid device_path ''ServicesResolved'' (VBool True) sched w of
           (None, w1, rest) \<Rightarrow> (None, w1, rest)
         | (Some (Inl e), w1, rest) \<Rightarrow> (Some (Inl e), w1, rest)
         | (Some (Inr u), w1, rest) \<Rightarrow>
             (case build_services api (fst w1) (children (service_map (fst w1)) device_path)
                      empty_collection of
                Inl e \<Rightarrow> (Some (Inl e), w1, rest)
              | Inr services \<Rightarrow>
                  (Some (Inr services),
                   ((fst w1)\<lparr>services_cache := (services_cache (fst w1))(device_path \<mapsto> services)\<rparr>,
                    snd w1),
                   rest))))"

section \<open>Predicates of the statements\<close>

text \<open>
  A characteristic handle as \<open>get_services\<close> builds it: its properties are the table entry
  of its path and its size argument is computed from them.
\<close>

definition char_built :: "manager \<Rightarrow> gatt_characteristic \<Rightarrow> bool" where
  "char_built s c \<longleftrightarrow>
     lookup_interface s (ch_path c) GATT_CHARACTERISTIC_INTERFACE = Some (ch_obj c) \<and>
     max_write_size (ch_obj c) = Inr (ch_max_write_without_response_size c)"

text \<open>
  What the signal handler never writes: the two callback lists, the set of condition
  closures and the stored bus.
\<close>

definition regs_kept :: "manager \<Rightarrow> manager \<Rightarrow> bool" where
  "regs_kept s s' \<longleftrightarrow>
     advertisement_callbacks s' = advertisement_callbacks s \<and>
     device_removed_callbacks s' = device_removed_callbacks s \<and>
     condition_callbacks s' = condition_callbacks s \<and>
     bus s' = bus s"

text \<open>The property table and the three index maps of a state.\<close>

definition tables_of ::
  "manager \<Rightarrow> (path \<rightharpoonup> (string \<rightharpoonup> props)) \<times> (path \<rightharpoonup> path list) \<times> (path \<rightharpoonup> path list)
     \<times> (path \<rightharpoonup> path list)" where
  "tables_of s = (properties s, service_map s, characteristic_map s, descriptor_map s)"

text \<open>All signals that are delivered while \<open>async_init\<close> awaits its four replies.\<close>

definition init_signals :: "init_env \<Rightarrow> message list" where
  "init_signals ie = fst (ie_match_added ie) @ fst (ie_match_removed ie)
     @ fst (ie_match_changed ie) @ fst (ie_managed_objects ie)"

text \<open>What a callback can do to the state: replace the set of device watchers.\<close>

definition only_watchers :: "manager \<Rightarrow> manager \<Rightarrow> bool" where
  "only_watchers s s' \<longleftrightarrow> (\<exists>ws. s' = s\<lparr>device_watchers := ws\<rparr>)"

text \<open>
  The log only grows. \<open>no_events\<close>: between two worlds no event was set.
  \<open>condition_holds\<close>: the comparison that a condition closure makes succeeds.
\<close>

definition no_events :: "world \<Rightarrow> world \<Rightarrow> bool" where
  "no_events w w' \<longleftrightarrow> (\<exists>ext. snd w' = snd w @ ext \<and> (\<forall>n. EventSet n \<notin> set ext))"

definition condition_holds :: "condition_callback \<Rightarrow> manager \<Rightarrow> bool" where
  "condition_holds c s \<longleftrightarrow>
     (case lookup_property s (cc_device_path c) DEVICE_INTERFACE (cc_property_name c) of
        None \<Rightarrow> False
      | Some v \<Rightarrow> py_eq v (cc_property_value c))"

text \<open>
  \<open>events_justified\<close>: every event set between two worlds belongs to a closure of the
  given set whose comparison succeeds in the later state.
\<close>

definition events_justified :: "condition_callback list \<Rightarrow> world \<Rightarrow> world \<Rightarrow> bool" where
  "events_justified cs w w' \<longleftrightarrow>
     (\<exists>ext. snd w' = snd w @ ext \<and>
        (\<forall>n. EventSet n \<in> set ext \<longrightarrow> (\<exists>c \<in> set cs. cc_id c = n \<and> condition_holds c (fst w'))))"

text \<open>
  \<open>carries\<close>: the property table entry of \<open>child\<close> has the interface, and the interface
  has the parent reference \<open>key\<close> with the object path \<open>parent\<close>. An index map matches
  the table when it lists \<open>child\<close> under \<open>parent\<close> exactly in that case: no orphan and
  no missing entry. \<open>index_exact\<close> says so for the three maps.
\<close>

definition carries :: "manager \<Rightarrow> string \<Rightarrow> string \<Rightarrow> path \<Rightarrow> path \<Rightarrow> bool" where
  "carries s interface key parent child \<longleftrightarrow>
     (case lookup_interface s child interface of
        None \<Rightarrow> False
      | Some ps \<Rightarrow> ps key = Some (VStr parent))"

definition index_matches :: "(path \<rightharpoonup> path list) \<Rightarrow> manager \<Rightarrow> string \<Rightarrow> string \<Rightarrow> bool" where
  "index_matches m s interface key \<longleftrightarrow>
     (\<forall>parent child. child \<in> set (children m parent) \<longleftrightarrow> carries s interface key parent child)"

definition index_exact :: "manager \<Rightarrow> bool" where
  "index_exact s \<longleftrightarrow>
     index_matches (service_map s) s GATT_SERVICE_INTERFACE ''Device'' \<and>
     index_matches (characteristic_map s) s GATT_CHARACTERISTIC_INTERFACE ''Service'' \<and>
     index_matches (descriptor_map s) s GATT_DESCRIPTOR_INTERFACE ''Characteristic''"

text \<open>
  The signals under which the handler maintains the invariant. An object-added signal
  must not give a path that carries a GATT interface under one parent the same interface
  without that parent; a properties-changed signal must not touch the parent reference
  of a GATT interface; an object-removed signal must name none of the device and GATT
  interfaces.
\<close>

definition parent_key :: "string \<Rightarrow> string option" where
  "parent_key interface =
     (if interface = GATT_SERVICE_INTERFACE then Some ''Device''
      else if interface = GATT_CHARACTERISTIC_INTERFACE then Some ''Service''
      else if interface = GATT_DESCRIPTOR_INTERFACE then Some ''Characteristic''
      else None)"

definition keeps_parent :: "manager \<Rightarrow> path \<Rightarrow> string \<Rightarrow> props \<Rightarrow> bool" where
  "keeps_parent s p interface new_props \<longleftrightarrow>
     (case parent_key interface of
        None \<Rightarrow> True
      | Some key \<Rightarrow>
          (case lookup_interface s p interface of
             None \<Rightarrow> True
           | Some old_props \<Rightarrow>
               (case old_props key of
                  Some (VStr parent) \<Rightarrow> new_props key = Some (VStr parent)
                | _ \<Rightarrow> True)))"

fun index_safe :: "manager \<Rightarrow> message \<Rightarrow> bool" where
  "index_safe s (InterfacesAdded p ifs) =
     (distinct (map fst ifs) \<and>
      list_all (\<lambda>ip. keeps_parent s p (fst ip) (unpack_variants (snd ip))) ifs)"
| "index_safe s (InterfacesRemoved p interfaces) =
     list_all (\<lambda>i. i \<noteq> DEVICE_INTERFACE \<and> parent_key i = None) interfaces"
| "index_safe s (PropertiesChanged mp interface changed invalidated) =
     (case parent_key interface of
        None \<Rightarrow> True
      | Some key \<Rightarrow> key \<notin> set (map fst changed) \<and> key \<notin> set invalidated)"
| "index_safe s (OtherSignal member) = True"
| "index_safe s NotSignal = True"

fun index_safe_run :: "cb_env \<Rightarrow> message list \<Rightarrow> world \<Rightarrow> bool" where
  "index_safe_run env [] w = True"
| "index_safe_run env (m # ms) w =
     (index_safe (fst w) m \<and> index_safe_run env ms (snd (parse_msg env m w)))"

section \<open>Example data\<close>

text \<open>
  A device with resolved services: one service with two characteristics, the second
  without an \<open>MTU\<close> property; and the snapshot that is expected for it.
\<close>

definition example_api :: gatt_api where
  "example_api = \<lparr>service_uuid = (\<lambda>sv. ''180f''), service_handle = (\<lambda>sv. 16),
     characteristic_uuid = (\<lambda>ch. ''2a19''), characteristic_handle = (\<lambda>ch. 17)\<rparr>"

definition example_char_props :: props where
  "example_char_props = [''Service'' \<mapsto> VStr ''/org/bluez/hci0/dev_AA/service0010'', ''MTU'' \<mapsto> VInt 185]"

definition example_char_props_no_mtu :: props where
  "example_char_props_no_mtu = [''Service'' \<mapsto> VStr ''/org/bluez/hci0/dev_AA/service0010'']"

definition example_service_props :: props where
  "example_service_props = [''Device'' \<mapsto> VStr ''/org/bluez/hci0/dev_AA'']"

definition example_resolved :: manager where
  "example_resolved = manager_init
     \<lparr>bus := Some True,
      properties :=
        [''/org/bluez/hci0/dev_AA'' \<mapsto> [DEVICE_INTERFACE \<mapsto> [''ServicesResolved'' \<mapsto> VBool True]],
         ''/org/bluez/hci0/dev_AA/service0010'' \<mapsto> [GATT_SERVICE_INTERFACE \<mapsto> example_service_props],
         ''/org/bluez/hci0/dev_AA/service0010/char0011'' \<mapsto>
            [GATT_CHARACTERISTIC_INTERFACE \<mapsto> example_char_props],
         ''/org/bluez/hci0/dev_AA/service0010/char0013'' \<mapsto>
            [GATT_CHARACTERISTIC_INTERFACE \<mapsto> example_char_props_no_mtu]],
      service_map := [''/org/bluez/hci0/dev_AA'' \<mapsto> [''/org/bluez/hci0/dev_AA/service0010'']],
      characteristic_map :=
        [''/org/bluez/hci0/dev_AA/service0010'' \<mapsto>
           [''/org/bluez/hci0/dev_AA/service0010/char0011'',
            ''/org/bluez/hci0/dev_AA/service0010/char0013'']]\<rparr>"

definition example_collection :: service_collection where
  "example_collection =
     \<lparr>col_services = [GattService example_service_props ''/org/bluez/hci0/dev_AA/service0010''],
      col_characteristics =
        [GattCharacteristic example_char_props ''/org/bluez/hci0/dev_AA/service0010/char0011''
           ''180f'' 16 182,
         GattCharacteristic example_char_props_no_mtu ''/org/bluez/hci0/dev_AA/service0010/char0013''
           ''180f'' 16 20],
      col_descriptors = []\<rparr>"

text \<open>
  Two scanners on two adapters: scanner A (callbacks 1 and 2) is registered on \<open>hci0\<close>,
  scanner B (callbacks 3 and 4) on \<open>hci1\<close>.
\<close>

definition example_two_scanners :: manager where
  "example_two_scanners = manager_init
     \<lparr>bus := Some True,
      properties := [''/org/bluez/hci0'' \<mapsto> Map.empty, ''/org/bluez/hci1'' \<mapsto> Map.empty],
      advertisement_callbacks :=
        [CallbackAndState 1 ''/org/bluez/hci0'', CallbackAndState 3 ''/org/bluez/hci1''],
      device_removed_callbacks :=
        [DeviceRemovedCallbackAndState 2 ''/org/bluez/hci0'',
         DeviceRemovedCallbackAndState 4 ''/org/bluez/hci1'']\<rparr>"

text \<open>The daemon refuses \<open>StartDiscovery\<close> for a client that is discovering already.\<close>

definition example_in_progress :: active_env where
  "example_in_progress =
     \<lparr>ae_set_discovery_filter = ([], MethodReturn ()),
      ae_start_discovery = ([], ErrorReply ''org.bluez.Error.InProgress'')\<rparr>"

text \<open>A daemon without the advertisement monitor API.\<close>

definition example_no_monitor :: passive_env where
  "example_no_monitor =
     \<lparr>pe_monitor_path = ''/org/bleak/4711/1'',
      pe_register_monitor = ([], ErrorReply ''org.freedesktop.DBus.Error.UnknownMethod'')\<rparr>"

text \<open>A manager that lost its bus connection and still holds a device of the old session.\<close>

definition example_stale :: manager where
  "example_stale = manager_init
     \<lparr>bus := Some False,
      properties := [''/org/bluez/hci0/dev_OLD'' \<mapsto> [DEVICE_INTERFACE \<mapsto> Map.empty]]\<rparr>"

definition example_init_env :: "managed_objects reply \<Rightarrow> init_env" where
  "example_init_env r =
     \<lparr>ie_connect = Inr (), ie_match_added = ([], MethodReturn ()),
      ie_match_removed = ([], MethodReturn ()), ie_match_changed = ([], MethodReturn ()),
      ie_managed_objects = ([], r)\<rparr>"

text \<open>
  A manager that knows one device whose services are not resolved yet, and the signal
  with which the daemon reports that they are.
\<close>

definition example_unresolved :: manager where
  "example_unresolved = manager_init
     \<lparr>bus := Some True,
      properties :=
        [''/org/bluez/hci0/dev_AA'' \<mapsto> [DEVICE_INTERFACE \<mapsto> [''ServicesResolved'' \<mapsto> VBool False]]]\<rparr>"

definition example_resolved_signal :: message where
  "example_resolved_signal =
     PropertiesChanged (Some ''/org/bluez/hci0/dev_AA'') DEVICE_INTERFACE
       [(''ServicesResolved'', Variant ''b'' (VBool True))] []"

text \<open>
  Two watchers of one device. The callbacks of the first watcher unregister it with
  \<open>remove_device_watcher\<close>, as a client does when its device disconnects.
\<close>

definition example_watcher_a :: device_watcher where
  "example_watcher_a = DeviceWatcher ''/org/bluez/hci0/dev_AA'' 10 11"

definition example_watcher_b :: device_watcher where
  "example_watcher_b = DeviceWatcher ''/org/bluez/hci0/dev_AA'' 12 13"

definition example_two_watchers :: manager where
  "example_two_watchers = manager_init
     \<lparr>bus := Some True,
      properties :=
        [''/org/bluez/hci0/dev_AA'' \<mapsto> [DEVICE_INTERFACE \<mapsto> [''Connected'' \<mapsto> VBool True]],
         ''/org/bluez/hci0/dev_AA/service0010/char0011'' \<mapsto>
            [GATT_CHARACTERISTIC_INTERFACE \<mapsto> [''Value'' \<mapsto> VBytes []]]],
      device_watchers := [example_watcher_a, example_watcher_b]\<rparr>"

definition example_self_removing :: cb_env where
  "example_self_removing c s =
     (case c of
        ConnectedChangedCall cb v \<Rightarrow> if cb = 10 then [RemoveDeviceWatcher example_watcher_a] else []
      | ValueChangedCall cb p v \<Rightarrow> if cb = 11 then [RemoveDeviceWatcher example_watcher_a] else []
      | _ \<Rightarrow> [])"

definition example_value_signal :: message where
  "example_value_signal =
     PropertiesChanged (Some ''/org/bluez/hci0/dev_AA/service0010/char0011'')
       GATT_CHARACTERISTIC_INTERFACE [(''Value'', Variant ''ay'' (VBytes [1, 2]))] []"

definition example_disconnected_signal :: message where
  "example_disconnected_signal =
     PropertiesChanged (Some ''/org/bluez/hci0/dev_AA'') DEVICE_INTERFACE
       [(''Connected'', Variant ''b'' (VBool False))] []"

text \<open>
  A bulk enumeration that lists one device and one GATT service of it, the world after
  an initialisation with it, and signals that add a characteristic to the service,
  report the device as disconnected and add a descriptor to the characteristic.
\<close>

definition example_objects :: managed_objects where
  "example_objects =
     [(''/org/bluez/hci0/dev_AA'',
         [(DEVICE_INTERFACE, [(''Connected'', Variant ''b'' (VBool True))])]),
      (''/org/bluez/hci0/dev_AA/service0010'',
         [(GATT_SERVICE_INTERFACE, [(''Device'', Variant ''o'' (VStr ''/org/bluez/hci0/dev_AA''))])])]"

definition example_enumerated :: world where
  "example_enumerated =
     fst (snd (async_init (\<lambda>c s. []) (example_init_env (MethodReturn example_objects))
                 (manager_init, [])))"

definition example_signals :: "message list" where
  "example_signals =
     [InterfacesAdded ''/org/bluez/hci0/dev_AA/service0010/char0011''
        [(GATT_CHARACTERISTIC_INTERFACE,
            [(''Service'', Variant ''o'' (VStr ''/org/bluez/hci0/dev_AA/service0010''))])],
      PropertiesChanged (Some ''/org/bluez/hci0/dev_AA'') DEVICE_INTERFACE
        [(''Connected'', Variant ''b'' (VBool False))] [],
      InterfacesAdded ''/org/bluez/hci0/dev_AA/service0010/char0011/desc0012''
        [(GATT_DESCRIPTOR_INTERFACE,
            [(''Characteristic'', Variant ''o'' (VStr ''/org/bluez/hci0/dev_AA/service0010/char0011''))])]]"

section \<open>Properties of the scanner constructor\<close>

text \<open>
  Claim C10. Constructing the scanner with scanning mode \<open>passive\<close> and no
  \<open>or_patterns\<close> entry in the bluez arguments raises a BleakError from the constructor:
  no scanner object is returned, so no scanning operation can be attempted with it.
\<close>

theorem passive_without_or_patterns_raises:
  assumes "scanning_mode = ''passive''" and "bz_or_patterns bluez = None"
  shows "scanner_init detection_callback service_uuids scanning_mode bluez kwargs
           = Inl (BleakError ''passive scanning mode requires bluez or_patterns'')"
  using assms by (simp add: scanner_init_def Let_def truthy_list_def)

theorem passive_without_or_patterns_raises_witness:
  "scanner_init None None ''passive'' \<lparr>bz_filters = None, bz_or_patterns = None\<rparr>
       \<lparr>kw_adapter = None, kw_device = None, kw_filters = None\<rparr>
     = Inl (BleakError ''passive scanning mode requires bluez or_patterns'')"
  using passive_without_or_patterns_raises
          [of "''passive''" "\<lparr>bz_filters = None, bz_or_patterns = None\<rparr>" None None
              "\<lparr>kw_adapter = None, kw_device = None, kw_filters = None\<rparr>"]
  by simp

section \<open>Properties of initialisation and of the adapter check\<close>

text \<open>
  Claim C6. Calling \<open>async_init\<close> when the stored bus is connected performs no action:
  the call returns normally, the whole manager state (property table, the three index
  maps, the services cache and every registration collection) is the state before the
  call, no callback has run, and nothing is done on a bus; in particular no new bus
  connection is opened.
\<close>

theorem async_init_connected_noop:
  assumes "bus (fst w) = Some True"
  shows "async_init env ie w = (Inr (), w, [])"
  using assms by (simp add: async_init_def)

theorem async_init_connected_noop_witness:
  "async_init (\<lambda>c s. [])
      \<lparr>ie_connect = Inr (), ie_match_added = ([], MethodReturn ()),
        ie_match_removed = ([], MethodReturn ()), ie_match_changed = ([], MethodReturn ()),
        ie_managed_objects = ([], MethodReturn [(''/org/bluez/hci0'', [])])\<rparr>
      (manager_init\<lparr>bus := Some True\<rparr>, [])
     = (Inr (), (manager_init\<lparr>bus := Some True\<rparr>, []), [])"
  using async_init_connected_noop [of "(manager_init\<lparr>bus := Some True\<rparr>, [])"]
  by simp

text \<open>The errors that the start of a scan can end with.\<close>

lemma rollback_error_cases:
  "rollback_callbacks cs ds e s = (e', s') \<Longrightarrow> e' = e \<or> e' = ValueError"
  by (auto simp: rollback_callbacks_def list_remove_def Let_def split: if_splits)

lemma active_start_error_cases:
  "active_start env ae p w = (Inl e, w', tr) \<Longrightarrow> e = AttributeError \<or> (\<exists>n. e = BleakDBusError n)"
  by (auto simp: active_start_def bus_call_def assert_reply_def Let_def
           split: prod.splits sum.splits reply.splits if_splits)

lemma passive_start_error_cases:
  "passive_start env pe p w = (Inl e, w', tr) \<Longrightarrow>
     e = AttributeError \<or> (\<exists>n. e = BleakDBusError n) \<or>
     e = BleakError ''passive scanning on Linux requires BlueZ >= 5.55 with --experimental enabled and Linux kernel >= 5.10''"
  by (auto simp: passive_start_def bus_call_def assert_reply_def Let_def
           split: prod.splits sum.splits reply.splits if_splits)

lemma active_scan_found_error:
  assumes "properties (fst w) p \<noteq> None"
  shows "fst (active_scan env ae p fs ac dc w) \<noteq> Inl (adapter_not_found p)"
proof -
  obtain r w1 tr where st: "active_start env ae p
      (register_callbacks (CallbackAndState ac p) (DeviceRemovedCallbackAndState dc p) (fst w), snd w)
        = (r, w1, tr)"
    by (metis prod_cases3)
  show ?thesis
  proof (cases r)
    case (Inr u)
    with st assms show ?thesis by (simp add: active_scan_def Let_def)
  next
    case (Inl e)
    obtain e' s2 where rb:
      "rollback_callbacks (CallbackAndState ac p) (DeviceRemovedCallbackAndState dc p) e (fst w1)
         = (e', s2)"
      by (metis surj_pair)
    from st Inl have "e = AttributeError \<or> (\<exists>n. e = BleakDBusError n)"
      using active_start_error_cases by blast
    moreover from rb have "e' = e \<or> e' = ValueError" by (rule rollback_error_cases)
    ultimately have "e' \<noteq> adapter_not_found p" by (auto simp: adapter_not_found_def)
    with st Inl rb assms show ?thesis by (simp add: active_scan_def Let_def)
  qed
qed

lemma passive_scan_found_error:
  assumes "properties (fst w) p \<noteq> None"
  shows "fst (passive_scan env pe p fs ac dc w) \<noteq> Inl (adapter_not_found p)"
proof -
  obtain r w1 tr where st: "passive_start env pe p
      (register_callbacks (CallbackAndState ac p) (DeviceRemovedCallbackAndState dc p) (fst w), snd w)
        = (r, w1, tr)"
    by (metis prod_cases3)
  show ?thesis
  proof (cases r)
    case (Inr u)
    with st assms show ?thesis by (simp add: passive_scan_def Let_def)
  next
    case (Inl e)
    obtain e' s2 where rb:
      "rollback_callbacks (CallbackAndState ac p) (DeviceRemovedCallbackAndState dc p) e (fst w1)
         = (e', s2)"
      by (metis surj_pair)
    from st Inl have "e = AttributeError \<or> (\<exists>n. e = BleakDBusError n) \<or>
       e = BleakError ''passive scanning on Linux requires BlueZ >= 5.55 with --experimental enabled and Linux kernel >= 5.10''"
      using passive_start_error_cases by blast
    moreover from rb have "e' = e \<or> e' = ValueError" by (rule rollback_error_cases)
    ultimately have "e' \<noteq> adapter_not_found p" by (auto simp: adapter_not_found_def)
    with st Inl rb assms show ?thesis by (simp add: passive_scan_def Let_def)
  qed
qed

text \<open>
  Claim C7. \<open>active_scan\<close> and \<open>passive_scan\<close> raise the error
  \<open>adapter '<last path segment>' not found\<close> exactly when the adapter path has no entry
  in the property table. In that case the error is raised first: the state, with all
  registrations, is the state before the call, no callback has run, and no remote call
  has been issued.
\<close>

theorem adapter_not_found_iff:
  "(properties (fst w) p = None \<longrightarrow>
      active_scan env ae p fs ac dc w = (Inl (adapter_not_found p), w, []) \<and>
      passive_scan env pe p ps ac dc w = (Inl (adapter_not_found p), w, [])) \<and>
   (properties (fst w) p \<noteq> None \<longrightarrow>
      fst (active_scan env ae p fs ac dc w) \<noteq> Inl (adapter_not_found p) \<and>
      fst (passive_scan env pe p ps ac dc w) \<noteq> Inl (adapter_not_found p))"
  using active_scan_found_error passive_scan_found_error
  by (simp add: active_scan_def passive_scan_def)

theorem adapter_not_found_iff_witness:
  "adapter_not_found ''/org/bluez/hci0'' = BleakError (''adapter '' @ [CHR 0x27] @ ''hci0'' @ [CHR 0x27] @ '' not found'') \<and>
   active_scan (\<lambda>c s. [])
      \<lparr>ae_set_discovery_filter = ([], MethodReturn ()), ae_start_discovery = ([], MethodReturn ())\<rparr>
      ''/org/bluez/hci0'' Map.empty 1 2 (manager_init, [])
     = (Inl (adapter_not_found ''/org/bluez/hci0''), (manager_init, []), []) \<and>
   passive_scan (\<lambda>c s. [])
      \<lparr>pe_monitor_path = ''/org/bleak/1/1'', pe_register_monitor = ([], MethodReturn ())\<rparr>
      ''/org/bluez/hci0'' [] 1 2 (manager_init, [])
     = (Inl (adapter_not_found ''/org/bluez/hci0''), (manager_init, []), []) \<and>
   fst (active_scan (\<lambda>c s. [])
      \<lparr>ae_set_discovery_filter = ([], MethodReturn ()), ae_start_discovery = ([], MethodReturn ())\<rparr>
      ''/org/bluez/hci0'' Map.empty 1 2
      (manager_init\<lparr>bus := Some True, properties := [''/org/bluez/hci0'' \<mapsto> Map.empty]\<rparr>, []))
     \<noteq> Inl (adapter_not_found ''/org/bluez/hci0'')"
  using adapter_not_found_iff [of "(manager_init, [])" "''/org/bluez/hci0''" "\<lambda>c s. []"
          "\<lparr>ae_set_discovery_filter = ([], MethodReturn ()), ae_start_discovery = ([], MethodReturn ())\<rparr>"
          Map.empty 1 2
          "\<lparr>pe_monitor_path = ''/org/bleak/1/1'', pe_register_monitor = ([], MethodReturn ())\<rparr>" "[]"]
        adapter_not_found_iff [of
          "(manager_init\<lparr>bus := Some True, properties := [''/org/bluez/hci0'' \<mapsto> Map.empty]\<rparr>, [])"
          "''/org/bluez/hci0''" "\<lambda>c s. []"
          "\<lparr>ae_set_discovery_filter = ([], MethodReturn ()), ae_start_discovery = ([], MethodReturn ())\<rparr>"
          Map.empty 1 2
          "\<lparr>pe_monitor_path = ''/org/bleak/1/1'', pe_register_monitor = ([], MethodReturn ())\<rparr>" "[]"]
  by (simp add: manager_init_def adapter_not_found_def)

section \<open>Properties of the services snapshot\<close>

lemma build_descriptors_chars:
  "build_descriptors api s char ps col = Inr col' \<Longrightarrow> col_characteristics col' = col_characteristics col"
  by (induction ps arbitrary: col) (auto split: option.splits)

lemma build_characteristics_built:
  "build_characteristics api s service ps col = Inr col' \<Longrightarrow>
   \<forall>c \<in> set (col_characteristics col). char_built s c \<Longrightarrow>
   \<forall>c \<in> set (col_characteristics col'). char_built s c"
proof (induction ps arbitrary: col)
  case Nil
  then show ?case by simp
next
  case (Cons p ps)
  from Cons.prems(1) obtain char_props max_size col2 where
    lk: "lookup_interface s p GATT_CHARACTERISTIC_INTERFACE = Some char_props" and
    mw: "max_write_size char_props = Inr max_size" and
    bd: "build_descriptors api s
           (GattCharacteristic char_props p (service_uuid api service) (service_handle api service) max_size)
           (children (descriptor_map s) p)
           (col\<lparr>col_characteristics := col_characteristics col @
              [GattCharacteristic char_props p (service_uuid api service) (service_handle api service) max_size]\<rparr>)
         = Inr col2" and
    rec: "build_characteristics api s service ps col2 = Inr col'"
    by (auto simp: Let_def split: option.splits sum.splits)
  from bd have "col_characteristics col2 = col_characteristics col @
              [GattCharacteristic char_props p (service_uuid api service) (service_handle api service) max_size]"
    by (simp add: build_descriptors_chars)
  with Cons.prems(2) lk mw have "\<forall>c \<in> set (col_characteristics col2). char_built s c"
    by (auto simp: char_built_def)
  with Cons.IH rec show ?case by blast
qed

lemma build_services_built:
  "build_services api s ps col = Inr col' \<Longrightarrow>
   \<forall>c \<in> set (col_characteristics col). char_built s c \<Longrightarrow>
   \<forall>c \<in> set (col_characteristics col'). char_built s c"
proof (induction ps arbitrary: col)
  case Nil
  then show ?case by simp
next
  case (Cons p ps)
  from Cons.prems(1) obtain service_props col2 where
    bc: "build_characteristics api s (GattService service_props p)
           (children (characteristic_map s) p)
           (col\<lparr>col_services := col_services col @ [GattService service_props p]\<rparr>) = Inr col2" and
    rec: "build_services api s ps col2 = Inr col'"
    by (auto simp: Let_def split: option.splits sum.splits)
  from Cons.prems(2) have "\<forall>c \<in> set (col_characteristics
       (col\<lparr>col_services := col_services col @ [GattService service_props p]\<rparr>)). char_built s c"
    by simp
  with bc have "\<forall>c \<in> set (col_characteristics col2). char_built s c"
    by (rule build_characteristics_built)
  with Cons.IH rec show ?case by blast
qed

lemma get_services_built:
  assumes "get_services api env cid dp use_cached sched w = (Some (Inr col), w', rest)"
    and "\<not> (use_cached \<and> services_cache (fst w) dp \<noteq> None)"
  shows "\<exists>w1. build_services api (fst w1) (children (service_map (fst w1)) dp) empty_collection = Inr col
            \<and> fst w' = (fst w1)\<lparr>services_cache := (services_cache (fst w1))(dp \<mapsto> col)\<rparr> \<and> snd w' = snd w1
            \<and> wait_condition env cid dp ''ServicesResolved'' (VBool True) sched w = (Some (Inr ()), w1, rest)"
  using assms
  by (auto simp: get_services_def split: prod.splits option.splits sum.splits if_splits)

lemma lookup_interface_cache [simp]:
  "lookup_interface (s\<lparr>services_cache := c\<rparr>) p i = lookup_interface s p i"
  by (simp add: lookup_interface_def)

text \<open>
  Claim C9. Every characteristic handle that \<open>get_services\<close> builds carries the
  properties of its path in the property table, and its payload size argument is the
  \<open>MTU\<close> property minus 3, with 23 taken for a missing \<open>MTU\<close>, which gives 20.
\<close>

theorem payload_size_mtu_minus_3:
  assumes "get_services api env cid dp use_cached sched w = (Some (Inr col), w', rest)"
    and "\<not> (use_cached \<and> services_cache (fst w) dp \<noteq> None)"
    and "c \<in> set (col_characteristics col)"
  shows "lookup_interface (fst w') (ch_path c) GATT_CHARACTERISTIC_INTERFACE = Some (ch_obj c) \<and>
         (ch_obj c ''MTU'' = None \<longrightarrow> ch_max_write_without_response_size c = 20) \<and>
         (\<forall>m. ch_obj c ''MTU'' = Some (VInt m) \<longrightarrow> ch_max_write_without_response_size c = m - 3)"
proof -
  from get_services_built [OF assms(1,2)] obtain w1 :: world where
    b: "build_services api (fst w1) (children (service_map (fst w1)) dp) empty_collection = Inr col" and
    s: "fst w' = (fst w1)\<lparr>services_cache := (services_cache (fst w1))(dp \<mapsto> col)\<rparr>"
    by blast
  have "\<forall>c \<in> set (col_characteristics empty_collection). char_built (fst w1) c"
    by (simp add: empty_collection_def)
  with b have "\<forall>c \<in> set (col_characteristics col). char_built (fst w1) c"
    by (rule build_services_built)
  with assms(3) have cb: "char_built (fst w1) c" by blast
  then show ?thesis using s
    by (auto simp: char_built_def max_write_size_def split: option.splits dbus_value.splits)
qed

lemma example_get_services:
  "get_services example_api (\<lambda>c s. []) 0 ''/org/bluez/hci0/dev_AA'' False [] (example_resolved, [])
     = (Some (Inr example_collection),
        (example_resolved\<lparr>services_cache := [''/org/bluez/hci0/dev_AA'' \<mapsto> example_collection]\<rparr>, []),
        [])"
  by (simp add: get_services_def wait_condition_def lookup_property_def example_resolved_def
        manager_init_def children_def lookup_interface_def max_write_size_def example_api_def
        example_collection_def empty_collection_def example_char_props_def
        example_char_props_no_mtu_def Let_def)

theorem payload_size_mtu_minus_3_witness:
  "get_services example_api (\<lambda>c s. []) 0 ''/org/bluez/hci0/dev_AA'' False [] (example_resolved, [])
     = (Some (Inr example_collection),
        (example_resolved\<lparr>services_cache := [''/org/bluez/hci0/dev_AA'' \<mapsto> example_collection]\<rparr>, []),
        []) \<and>
   map (\<lambda>c. ch_obj c ''MTU'') (col_characteristics example_collection) = [Some (VInt 185), None] \<and>
   map ch_max_write_without_response_size (col_characteristics example_collection) = [185 - 3, 20]"
proof -
  let ?c1 = "GattCharacteristic example_char_props ''/org/bluez/hci0/dev_AA/service0010/char0011''
               ''180f'' 16 182"
  let ?c2 = "GattCharacteristic example_char_props_no_mtu
               ''/org/bluez/hci0/dev_AA/service0010/char0013'' ''180f'' 16 20"
  have run: "get_services example_api (\<lambda>c s. []) 0 ''/org/bluez/hci0/dev_AA'' False []
               (example_resolved, [])
     = (Some (Inr example_collection),
        (example_resolved\<lparr>services_cache := [''/org/bluez/hci0/dev_AA'' \<mapsto> example_collection]\<rparr>, []),
        [])"
    by (rule example_get_services)
  have nc: "\<not> (False \<and> services_cache (fst (example_resolved, [])) ''/org/bluez/hci0/dev_AA'' \<noteq> None)"
    by simp
  have cs: "col_characteristics example_collection = [?c1, ?c2]"
    by (simp add: example_collection_def)
  have m1: "ch_obj ?c1 ''MTU'' = Some (VInt 185)" and m2: "ch_obj ?c2 ''MTU'' = None"
    by (simp_all add: example_char_props_def example_char_props_no_mtu_def)
  have "?c1 \<in> set (col_characteristics example_collection)" using cs by simp
  from payload_size_mtu_minus_3 [OF run nc this] m1
  have s1: "ch_max_write_without_response_size ?c1 = 185 - 3" by blast
  have "?c2 \<in> set (col_characteristics example_collection)" using cs by simp
  from payload_size_mtu_minus_3 [OF run nc this] m2
  have s2: "ch_max_write_without_response_size ?c2 = 20" by blast
  from run cs m1 m2 s1 s2 show ?thesis by simp
qed

section \<open>The registrations that the signal handler leaves alone\<close>

lemma regs_kept_refl [simp]: "regs_kept s s"
  by (simp add: regs_kept_def)

lemma regs_kept_trans: "regs_kept s s' \<Longrightarrow> regs_kept s' s'' \<Longrightarrow> regs_kept s s''"
  by (simp add: regs_kept_def)

lemma run_api_regs: "regs_kept s (snd (run_api cs s))"
proof (induction cs s rule: run_api.induct)
  case (1 s)
  show ?case by simp
next
  case (2 p c1 c2 rest s)
  have "regs_kept s (snd (add_device_watcher p c1 c2 s))"
    by (simp add: add_device_watcher_def regs_kept_def Let_def)
  with 2 show ?case by (auto intro: regs_kept_trans)
next
  case (3 x rest s)
  show ?case
  proof (cases "x \<in> set (device_watchers s)")
    case True
    have "regs_kept s (s\<lparr>device_watchers := remove1 x (device_watchers s)\<rparr>)"
      by (simp add: regs_kept_def)
    moreover from True 3 have "regs_kept (s\<lparr>device_watchers := remove1 x (device_watchers s)\<rparr>)
        (snd (run_api rest (s\<lparr>device_watchers := remove1 x (device_watchers s)\<rparr>)))"
      by (simp add: remove_device_watcher_def)
    ultimately show ?thesis using True
      by (auto simp: remove_device_watcher_def intro: regs_kept_trans)
  next
    case False
    then show ?thesis by (simp add: remove_device_watcher_def)
  qed
qed

lemma invoke_regs: "regs_kept (fst w) (fst (snd (invoke env c w)))"
  using run_api_regs [of "fst w" "env c (fst w)"]
  by (auto simp: invoke_def split: prod.splits)

lemma advertisement_loop_regs:
  "regs_kept (fst w) (fst (snd (advertisement_loop env dp dev cs w)))"
proof (induction cs arbitrary: w)
  case Nil
  show ?case by simp
next
  case (Cons c cs)
  show ?case
  proof (cases "prefix (cs_adapter_path c) dp")
    case False
    with Cons show ?thesis by simp
  next
    case True
    obtain r w' where iv: "invoke env (AdvertisementCall (cs_callback c) dp dev) w = (r, w')"
      by (metis surj_pair)
    with invoke_regs [of w env "AdvertisementCall (cs_callback c) dp dev"]
    have k: "regs_kept (fst w) (fst w')" by simp
    show ?thesis
    proof (cases r)
      case (Inl e)
      with True iv k show ?thesis by simp
    next
      case (Inr u)
      with True iv k Cons [of w'] show ?thesis by (auto intro: regs_kept_trans)
    qed
  qed
qed

lemma run_advertisement_callbacks_regs:
  "regs_kept (fst w) (fst (snd (run_advertisement_callbacks env dp dev ch w)))"
  by (simp add: run_advertisement_callbacks_def advertisement_loop_regs)

lemma device_removed_loop_regs:
  "regs_kept (fst w) (fst (snd (device_removed_loop env p cs w)))"
proof (induction cs arbitrary: w)
  case Nil
  show ?case by simp
next
  case (Cons c cs)
  show ?case
  proof (cases "prefix (dr_adapter_path c) p")
    case False
    with Cons show ?thesis by simp
  next
    case True
    obtain r w' where iv: "invoke env (DeviceRemovedCall (dr_callback c) p) w = (r, w')"
      by (metis surj_pair)
    with invoke_regs [of w env "DeviceRemovedCall (dr_callback c) p"]
    have k: "regs_kept (fst w) (fst w')" by simp
    show ?thesis
    proof (cases r)
      case (Inl e)
      with True iv k show ?thesis by simp
    next
      case (Inr u)
      with True iv k Cons [of w'] show ?thesis by (auto intro: regs_kept_trans)
    qed
  qed
qed

lemma connected_loop_regs:
  "regs_kept (fst w) (fst (snd (connected_loop env p si xs w)))"
proof (induction xs arbitrary: w)
  case Nil
  show ?case by simp
next
  case (Cons x xs)
  show ?case
  proof (cases "p = dw_device_path x \<and> si ''Connected'' \<noteq> None")
    case False
    with Cons show ?thesis by (auto split: option.splits)
  next
    case True
    then obtain v where v: "si ''Connected'' = Some v" by auto
    obtain r w' where iv: "invoke env (ConnectedChangedCall (dw_on_connected_changed x) v) w = (r, w')"
      by (metis surj_pair)
    with invoke_regs [of w env "ConnectedChangedCall (dw_on_connected_changed x) v"]
    have k: "regs_kept (fst w) (fst w')" by simp
    show ?thesis
    proof (cases r)
      case (Inl e)
      with True v iv k show ?thesis by simp
    next
      case (Inr u)
      with True v iv k Cons [of w'] show ?thesis by (auto intro: regs_kept_trans)
    qed
  qed
qed

lemma value_loop_regs:
  "regs_kept (fst w) (fst (snd (value_loop env n p si xs w)))"
proof (induction xs arbitrary: w)
  case Nil
  show ?case by simp
next
  case (Cons x xs)
  show ?case
  proof (cases "length (device_watchers (fst w)) = n \<and> x \<in> set (device_watchers (fst w)) \<and>
                prefix (dw_device_path x) p \<and> si ''Value'' \<noteq> None")
    case False
    with Cons show ?thesis by (auto split: option.splits)
  next
    case True
    then obtain v where v: "si ''Value'' = Some v" by auto
    obtain r w' where iv:
      "invoke env (ValueChangedCall (dw_on_characteristic_value_changed x) p v) w = (r, w')"
      by (metis surj_pair)
    with invoke_regs [of w env "ValueChangedCall (dw_on_characteristic_value_changed x) p v"]
    have k: "regs_kept (fst w) (fst w')" by simp
    show ?thesis
    proof (cases r)
      case (Inl e)
      with True v iv k show ?thesis by simp
    next
      case (Inr u)
      with True v iv k Cons [of w'] show ?thesis by (auto intro: regs_kept_trans)
    qed
  qed
qed

lemma condition_loop_state: "fst (snd (condition_loop cs w)) = fst w"
  by (induction cs arbitrary: w) (auto split: option.splits)


lemma index_interface_regs:
  "index_interface i ps p s = Inr s' \<Longrightarrow> regs_kept s s'"
  by (auto simp: index_interface_def regs_kept_def split: if_splits sum.splits)

lemma table_add_regs: "regs_kept s (table_add p i ps s)"
  by (simp add: table_add_def regs_kept_def)

lemma table_remove_regs: "regs_kept s (table_remove p i s)"
  by (simp add: table_remove_def regs_kept_def split: option.splits)

lemma table_set_regs: "regs_kept s (table_set p i ps s)"
  by (simp add: table_set_def regs_kept_def split: option.splits)

lemma interfaces_added_regs:
  "regs_kept (fst w) (fst (snd (interfaces_added env p ifs w)))"
proof (induction ifs arbitrary: w)
  case Nil
  show ?case by simp
next
  case (Cons ip rest)
  let ?s1 = "table_add p (fst ip) (unpack_variants (snd ip)) (fst w)"
  have k1: "regs_kept (fst w) ?s1" by (rule table_add_regs)
  show ?case
  proof (cases "index_interface (fst ip) (unpack_variants (snd ip)) p ?s1")
    case (Inl e)
    with k1 show ?thesis by (simp add: Let_def)
  next
    case (Inr s2)
    then have "regs_kept ?s1 s2" by (rule index_interface_regs)
    with k1 have k2: "regs_kept (fst w) s2" by (rule regs_kept_trans)
    show ?thesis
    proof (cases "fst ip = DEVICE_INTERFACE")
      case False
      with Inr k2 Cons [of "(s2, snd w)"] show ?thesis
        by (auto simp: Let_def intro: regs_kept_trans)
    next
      case True
      obtain r w' where ra: "run_advertisement_callbacks env p (unpack_variants (snd ip))
                               (map fst (snd ip)) (s2, snd w) = (r, w')"
        by (metis surj_pair)
      with run_advertisement_callbacks_regs [of "(s2, snd w)" env p "unpack_variants (snd ip)" "map fst (snd ip)"]
      have "regs_kept s2 (fst w')" by simp
      with k2 have k3: "regs_kept (fst w) (fst w')" by (rule regs_kept_trans)
      show ?thesis
      proof (cases r)
        case (Inl e)
        with True Inr ra k3 show ?thesis by (simp add: Let_def)
      next
        case (Inr u)
        with True \<open>index_interface (fst ip) (unpack_variants (snd ip)) p ?s1 = Inr s2\<close> ra k3
          Cons [of w']
        show ?thesis by (auto simp: Let_def intro: regs_kept_trans)
      qed
    qed
  qed
qed

lemma interfaces_removed_regs:
  "regs_kept (fst w) (fst (snd (interfaces_removed env p ifs w)))"
proof (induction ifs arbitrary: w)
  case Nil
  show ?case by simp
next
  case (Cons i rest)
  let ?s1 = "table_remove p i (fst w)"
  have k1: "regs_kept (fst w) ?s1" by (rule table_remove_regs)
  show ?case
  proof (cases "i = DEVICE_INTERFACE")
    case True
    let ?s2 = "?s1\<lparr>services_cache := (services_cache ?s1)(p := None),
                     service_map := (service_map ?s1)(p := None)\<rparr>"
    from k1 have k2: "regs_kept (fst w) ?s2" by (simp add: regs_kept_def)
    obtain r w' where dl: "device_removed_loop env p (device_removed_callbacks ?s2) (?s2, snd w) = (r, w')"
      by (metis surj_pair)
    with device_removed_loop_regs [of "(?s2, snd w)" env p "device_removed_callbacks ?s2"]
    have "regs_kept ?s2 (fst w')" by simp
    with k2 have k3: "regs_kept (fst w) (fst w')" by (rule regs_kept_trans)
    show ?thesis
    proof (cases r)
      case (Inl e)
      with True dl k3 show ?thesis by (simp add: Let_def)
    next
      case (Inr u)
      with True dl k3 Cons [of w'] show ?thesis by (auto simp: Let_def intro: regs_kept_trans)
    qed
  next
    case False
    note nd = False
    show ?thesis
    proof (cases "i = GATT_SERVICE_INTERFACE")
      case True
      from k1 have "regs_kept (fst w) (?s1\<lparr>characteristic_map := (characteristic_map ?s1)(p := None)\<rparr>)"
        by (simp add: regs_kept_def)
      with nd True Cons [of "(?s1\<lparr>characteristic_map := (characteristic_map ?s1)(p := None)\<rparr>, snd w)"]
      show ?thesis by (auto simp: Let_def intro: regs_kept_trans)
    next
      case False
      note ns = False
      show ?thesis
      proof (cases "i = GATT_CHARACTERISTIC_INTERFACE")
        case True
        from k1 have "regs_kept (fst w) (?s1\<lparr>descriptor_map := (descriptor_map ?s1)(p := None)\<rparr>)"
          by (simp add: regs_kept_def)
        with nd ns True Cons [of "(?s1\<lparr>descriptor_map := (descriptor_map ?s1)(p := None)\<rparr>, snd w)"]
        show ?thesis by (auto simp: Let_def intro: regs_kept_trans)
      next
        case False
        with nd ns k1 Cons [of "(?s1, snd w)"]
        show ?thesis by (auto simp: Let_def intro: regs_kept_trans)
      qed
    qed
  qed
qed

lemma changed_callbacks_regs:
  "regs_kept (fst w) (fst (snd (changed_callbacks env p i si ch w)))"
proof (cases "i = DEVICE_INTERFACE")
  case True
  obtain r1 w1 where ra: "run_advertisement_callbacks env p si ch w = (r1, w1)"
    by (metis surj_pair)
  with run_advertisement_callbacks_regs [of w env p si ch]
  have k1: "regs_kept (fst w) (fst w1)" by simp
  obtain r2 w2 where cl: "condition_loop (condition_callbacks (fst w1)) w1 = (r2, w2)"
    by (metis surj_pair)
  with condition_loop_state [of "condition_callbacks (fst w1)" w1] have "fst w2 = fst w1" by simp
  with k1 have k2: "regs_kept (fst w) (fst w2)" by simp
  from connected_loop_regs [of w2 env p si "device_watchers (fst w2)"] k2
  have k3: "regs_kept (fst w) (fst (snd (connected_loop env p si (device_watchers (fst w2)) w2)))"
    by (rule regs_kept_trans [rotated])
  from True ra cl k1 k2 k3 show ?thesis
    by (cases r1; cases r2) (simp_all add: changed_callbacks_def)
next
  case False
  then show ?thesis
    by (simp add: changed_callbacks_def value_loop_regs)
qed

lemma properties_changed_regs:
  "regs_kept (fst w) (fst (snd (properties_changed env mp i ch ivd w)))"
proof (cases mp)
  case None
  then show ?thesis by (simp add: properties_changed_def)
next
  case (Some p)
  show ?thesis
  proof (cases "lookup_interface (fst w) p i")
    case None
    with Some show ?thesis
      by (auto simp: properties_changed_def lookup_interface_def split: option.splits)
  next
    case si: (Some self_interface)
    then obtain ifs where ifs: "properties (fst w) p = Some ifs" "ifs i = Some self_interface"
      by (auto simp: lookup_interface_def split: option.splits)
    obtain r ps where di: "delete_invalidated ivd (self_interface ++ unpack_variants ch) = (r, ps)"
      by (metis surj_pair)
    have k1: "regs_kept (fst w) (table_set p i ps (fst w))" by (rule table_set_regs)
    show ?thesis
    proof (cases r)
      case (Inl e)
      with Some ifs di k1 show ?thesis by (simp add: properties_changed_def)
    next
      case (Inr u)
      from changed_callbacks_regs [of "(table_set p i ps (fst w), snd w)" env p i ps "map fst ch"] k1
      have "regs_kept (fst w) (fst (snd (changed_callbacks env p i ps (map fst ch)
              (table_set p i ps (fst w), snd w))))"
        by (auto intro: regs_kept_trans)
      with Some ifs di Inr show ?thesis by (simp add: properties_changed_def)
    qed
  qed
qed

lemma parse_msg_regs: "regs_kept (fst w) (fst (snd (parse_msg env m w)))"
  by (cases m)
     (simp_all add: interfaces_added_regs interfaces_removed_regs properties_changed_regs)

lemma deliver_regs: "regs_kept (fst w) (fst (deliver env ms w))"
proof (induction ms arbitrary: w)
  case Nil
  show ?case by simp
next
  case (Cons m ms)
  from parse_msg_regs [of w env m] Cons [of "snd (parse_msg env m w)"]
  show ?case by (auto intro: regs_kept_trans)
qed

section \<open>Properties of a failed scan start\<close>

lemma bus_call_regs: "bus_call env a w = (r, w') \<Longrightarrow> regs_kept (fst w) (fst w')"
  using deliver_regs [of w env "fst a"]
  by (auto simp: bus_call_def await_reply_def split: if_splits)

lemma active_start_regs:
  assumes "active_start env ae p w = (r, w', tr)"
  shows "regs_kept (fst w) (fst w')"
proof -
  obtain r1 w1 where c1: "bus_call env (ae_set_discovery_filter ae) w = (r1, w1)"
    by (metis surj_pair)
  then have k1: "regs_kept (fst w) (fst w1)" by (rule bus_call_regs)
  obtain r2 w2 where c2: "bus_call env (ae_start_discovery ae) w1 = (r2, w2)"
    by (metis surj_pair)
  then have "regs_kept (fst w1) (fst w2)" by (rule bus_call_regs)
  with k1 have k2: "regs_kept (fst w) (fst w2)" by (rule regs_kept_trans)
  from assms c1 c2 k1 k2 show ?thesis
    by (auto simp: active_start_def Let_def split: sum.splits)
qed

lemma passive_start_regs:
  assumes "passive_start env pe p w = (r, w', tr)"
  shows "regs_kept (fst w) (fst w')"
proof -
  obtain r1 w1 where c1: "bus_call env (pe_register_monitor pe) w = (r1, w1)"
    by (metis surj_pair)
  then have k1: "regs_kept (fst w) (fst w1)" by (rule bus_call_regs)
  from assms c1 k1 show ?thesis
    by (auto simp: passive_start_def Let_def split: sum.splits if_splits)
qed

lemma rollback_after_register:
  assumes "regs_kept (register_callbacks cs ds s) s1"
    and "rollback_callbacks cs ds e s1 = (e', s2)"
  shows "e' = e \<and>
         mset (advertisement_callbacks s2) = mset (advertisement_callbacks s) \<and>
         mset (device_removed_callbacks s2) = mset (device_removed_callbacks s) \<and>
         (cs \<notin> set (advertisement_callbacks s) \<longrightarrow>
            advertisement_callbacks s2 = advertisement_callbacks s) \<and>
         (ds \<notin> set (device_removed_callbacks s) \<longrightarrow>
            device_removed_callbacks s2 = device_removed_callbacks s)"
proof -
  from assms(1) have a: "advertisement_callbacks s1 = advertisement_callbacks s @ [cs]"
    and d: "device_removed_callbacks s1 = device_removed_callbacks s @ [ds]"
    by (simp_all add: regs_kept_def register_callbacks_def)
  from assms(2) a d have e: "e' = e"
    and s2: "s2 = s1\<lparr>advertisement_callbacks := remove1 cs (advertisement_callbacks s @ [cs]),
                      device_removed_callbacks := remove1 ds (device_removed_callbacks s @ [ds])\<rparr>"
    by (simp_all add: rollback_callbacks_def list_remove_def Let_def)
  from s2 have "advertisement_callbacks s2 = remove1 cs (advertisement_callbacks s @ [cs])"
    and "device_removed_callbacks s2 = remove1 ds (device_removed_callbacks s @ [ds])"
    by simp_all
  with e show ?thesis
    by (simp add: remove1_append)
qed

lemma active_scan_failed:
  assumes "active_scan env ae p fs ac dc w = (Inl e, w', tr)"
    and "properties (fst w) p \<noteq> None"
  shows "\<exists>s1 e0. regs_kept (register_callbacks (CallbackAndState ac p)
                      (DeviceRemovedCallbackAndState dc p) (fst w)) s1 \<and>
           rollback_callbacks (CallbackAndState ac p) (DeviceRemovedCallbackAndState dc p) e0 s1
             = (e, fst w')"
proof -
  let ?w0 = "(register_callbacks (CallbackAndState ac p) (DeviceRemovedCallbackAndState dc p) (fst w), snd w)"
  obtain r w1 t1 where st: "active_start env ae p ?w0 = (r, w1, t1)"
    by (metis prod_cases3)
  then have k: "regs_kept (fst ?w0) (fst w1)" by (rule active_start_regs)
  from assms st obtain e0 where "r = Inl e0"
    by (cases r) (auto simp: active_scan_def Let_def)
  with assms st have "rollback_callbacks (CallbackAndState ac p) (DeviceRemovedCallbackAndState dc p)
                        e0 (fst w1) = (e, fst w')"
    by (auto simp: active_scan_def Let_def split: prod.splits)
  with k show ?thesis by auto
qed

lemma passive_scan_failed:
  assumes "passive_scan env pe p ps ac dc w = (Inl e, w', tr)"
    and "properties (fst w) p \<noteq> None"
  shows "\<exists>s1 e0. regs_kept (register_callbacks (CallbackAndState ac p)
                      (DeviceRemovedCallbackAndState dc p) (fst w)) s1 \<and>
           rollback_callbacks (CallbackAndState ac p) (DeviceRemovedCallbackAndState dc p) e0 s1
             = (e, fst w')"
proof -
  let ?w0 = "(register_callbacks (CallbackAndState ac p) (DeviceRemovedCallbackAndState dc p) (fst w), snd w)"
  obtain r w1 t1 where st: "passive_start env pe p ?w0 = (r, w1, t1)"
    by (metis prod_cases3)
  then have k: "regs_kept (fst ?w0) (fst w1)" by (rule passive_start_regs)
  from assms st obtain e0 where "r = Inl e0"
    by (cases r) (auto simp: passive_scan_def Let_def)
  with assms st have "rollback_callbacks (CallbackAndState ac p) (DeviceRemovedCallbackAndState dc p)
                        e0 (fst w1) = (e, fst w')"
    by (auto simp: passive_scan_def Let_def split: prod.splits)
  with k show ?thesis by auto
qed

text \<open>
  Claim C4, as stated: after a failed start both lists are exactly the lists before the
  call. It fails when the registration being rolled back equals one that is registered
  already: \<open>list.remove\<close> takes out the first equal element, not the appended one.
  Scanner A is started a second time and the daemon answers \<open>InProgress\<close>.
\<close>

theorem failed_scan_start_order_counterexample:
  "fst (active_scan (\<lambda>c s. []) example_in_progress ''/org/bluez/hci0'' Map.empty 1 2
          (example_two_scanners, []))
     = Inl (BleakDBusError ''org.bluez.Error.InProgress'') \<and>
   advertisement_callbacks example_two_scanners
     = [CallbackAndState 1 ''/org/bluez/hci0'', CallbackAndState 3 ''/org/bluez/hci1''] \<and>
   advertisement_callbacks
       (fst (fst (snd (active_scan (\<lambda>c s. []) example_in_progress ''/org/bluez/hci0'' Map.empty 1 2
          (example_two_scanners, [])))))
     = [CallbackAndState 3 ''/org/bluez/hci1'', CallbackAndState 1 ''/org/bluez/hci0''] \<and>
   advertisement_callbacks
       (fst (fst (snd (active_scan (\<lambda>c s. []) example_in_progress ''/org/bluez/hci0'' Map.empty 1 2
          (example_two_scanners, [])))))
     \<noteq> advertisement_callbacks example_two_scanners"
  by (simp add: active_scan_def active_start_def bus_call_def await_reply_def assert_reply_def
        register_callbacks_def rollback_callbacks_def list_remove_def example_two_scanners_def
        example_in_progress_def manager_init_def Let_def)

text \<open>
  Claim C4, amended. If \<open>active_scan\<close> or \<open>passive_scan\<close> raises, whatever the failing
  step and whatever signals were delivered meanwhile, both registration lists hold the
  same registrations with the same multiplicities as before the call; and each list is
  exactly the list before the call when no equal registration (same callback, same
  adapter path) was in it already.
\<close>

theorem failed_scan_start_rolls_back:
  assumes "active_scan env ae p fs ac dc w = (Inl e, w', tr) \<or>
           passive_scan env pe p ps ac dc w = (Inl e, w', tr)"
  shows "mset (advertisement_callbacks (fst w')) = mset (advertisement_callbacks (fst w)) \<and>
         mset (device_removed_callbacks (fst w')) = mset (device_removed_callbacks (fst w)) \<and>
         (CallbackAndState ac p \<notin> set (advertisement_callbacks (fst w)) \<longrightarrow>
            advertisement_callbacks (fst w') = advertisement_callbacks (fst w)) \<and>
         (DeviceRemovedCallbackAndState dc p \<notin> set (device_removed_callbacks (fst w)) \<longrightarrow>
            device_removed_callbacks (fst w') = device_removed_callbacks (fst w))"
proof (cases "properties (fst w) p = None")
  case True
  with assms have "w' = w"
    by (auto simp: active_scan_def passive_scan_def)
  then show ?thesis by simp
next
  case False
  have "\<exists>s1 e0. regs_kept (register_callbacks (CallbackAndState ac p)
                      (DeviceRemovedCallbackAndState dc p) (fst w)) s1 \<and>
           rollback_callbacks (CallbackAndState ac p) (DeviceRemovedCallbackAndState dc p) e0 s1
             = (e, fst w')"
  proof (rule disjE [OF assms])
    assume "active_scan env ae p fs ac dc w = (Inl e, w', tr)"
    then show ?thesis using False by (rule active_scan_failed)
  next
    assume "passive_scan env pe p ps ac dc w = (Inl e, w', tr)"
    then show ?thesis using False by (rule passive_scan_failed)
  qed
  then obtain s1 e0 where
    "regs_kept (register_callbacks (CallbackAndState ac p) (DeviceRemovedCallbackAndState dc p) (fst w)) s1"
    "rollback_callbacks (CallbackAndState ac p) (DeviceRemovedCallbackAndState dc p) e0 s1 = (e, fst w')"
    by blast
  then show ?thesis
    by (rule rollback_after_register [THEN conjunct2])
qed


theorem failed_scan_start_rolls_back_witness:
  "fst (active_scan (\<lambda>c s. []) example_in_progress ''/org/bluez/hci0'' Map.empty 1 2
          (example_two_scanners, []))
     = Inl (BleakDBusError ''org.bluez.Error.InProgress'') \<and>
   mset (advertisement_callbacks
       (fst (fst (snd (active_scan (\<lambda>c s. []) example_in_progress ''/org/bluez/hci0'' Map.empty 1 2
          (example_two_scanners, []))))))
     = mset (advertisement_callbacks example_two_scanners) \<and>
   fst (passive_scan (\<lambda>c s. []) example_no_monitor ''/org/bluez/hci1'' [] 5 6
          (example_two_scanners, []))
     = Inl (BleakError ''passive scanning on Linux requires BlueZ >= 5.55 with --experimental enabled and Linux kernel >= 5.10'') \<and>
   advertisement_callbacks
       (fst (fst (snd (passive_scan (\<lambda>c s. []) example_no_monitor ''/org/bluez/hci1'' [] 5 6
          (example_two_scanners, [])))))
     = advertisement_callbacks example_two_scanners \<and>
   device_removed_callbacks
       (fst (fst (snd (passive_scan (\<lambda>c s. []) example_no_monitor ''/org/bluez/hci1'' [] 5 6
          (example_two_scanners, [])))))
     = device_removed_callbacks example_two_scanners"
proof -
  let ?a = "active_scan (\<lambda>c s. []) example_in_progress ''/org/bluez/hci0'' Map.empty 1 2
              (example_two_scanners, [])"
  let ?p = "passive_scan (\<lambda>c s. []) example_no_monitor ''/org/bluez/hci1'' [] 5 6
              (example_two_scanners, [])"
  have fa: "fst ?a = Inl (BleakDBusError ''org.bluez.Error.InProgress'')"
    by (simp add: active_scan_def active_start_def bus_call_def await_reply_def assert_reply_def
          register_callbacks_def rollback_callbacks_def list_remove_def example_two_scanners_def
          example_in_progress_def manager_init_def Let_def)
  then have ra: "?a = (Inl (BleakDBusError ''org.bluez.Error.InProgress''), fst (snd ?a), snd (snd ?a))"
    by (metis prod.collapse)
  have fp: "fst ?p = Inl (BleakError ''passive scanning on Linux requires BlueZ >= 5.55 with --experimental enabled and Linux kernel >= 5.10'')"
    by (simp add: passive_scan_def passive_start_def bus_call_def await_reply_def assert_reply_def
          register_callbacks_def rollback_callbacks_def list_remove_def example_two_scanners_def
          example_no_monitor_def manager_init_def Let_def)
  then have rp: "?p = (Inl (BleakError ''passive scanning on Linux requires BlueZ >= 5.55 with --experimental enabled and Linux kernel >= 5.10''),
                       fst (snd ?p), snd (snd ?p))"
    by (metis prod.collapse)
  have fresh: "CallbackAndState 5 ''/org/bluez/hci1'' \<notin> set (advertisement_callbacks example_two_scanners)"
    "DeviceRemovedCallbackAndState 6 ''/org/bluez/hci1'' \<notin> set (device_removed_callbacks example_two_scanners)"
    by (simp_all add: example_two_scanners_def manager_init_def)
  from failed_scan_start_rolls_back [OF disjI1 [OF ra]]
  have "mset (advertisement_callbacks (fst (fst (snd ?a))))
          = mset (advertisement_callbacks example_two_scanners)"
    by simp
  moreover from failed_scan_start_rolls_back [OF disjI2 [OF rp]] fresh
  have "advertisement_callbacks (fst (fst (snd ?p))) = advertisement_callbacks example_two_scanners"
    and "device_removed_callbacks (fst (fst (snd ?p))) = device_removed_callbacks example_two_scanners"
    by simp_all
  ultimately show ?thesis using fa fp by simp
qed

section \<open>Properties of the bulk read\<close>

lemma deliver_append: "deliver env (ms @ ns) w = deliver env ns (deliver env ms w)"
  by (induction ms arbitrary: w) simp_all

lemma load_objects_tables:
  "tables_of s = tables_of t \<Longrightarrow>
   fst (load_objects objs s) = fst (load_objects objs t) \<and>
   tables_of (snd (load_objects objs s)) = tables_of (snd (load_objects objs t))"
proof (induction objs arbitrary: s t)
  case Nil
  then show ?case by simp
next
  case (Cons pi rest)
  let ?step = "\<lambda>u. u\<lparr>properties := (properties u)(fst pi \<mapsto> unpack_interfaces (snd pi))\<rparr>"
  from Cons.prems have eq: "properties s = properties t" "service_map s = service_map t"
    "characteristic_map s = characteristic_map t" "descriptor_map s = descriptor_map t"
    by (simp_all add: tables_of_def)
  show ?case
  proof (cases "load_index (snd pi) GATT_SERVICE_INTERFACE ''Device'' (fst pi) (service_map t)")
    case (Inl e)
    with eq show ?thesis by (simp add: Let_def tables_of_def)
  next
    case sm: (Inr sm)
    show ?thesis
    proof (cases "load_index (snd pi) GATT_CHARACTERISTIC_INTERFACE ''Service'' (fst pi)
                    (characteristic_map t)")
      case (Inl e)
      with eq sm show ?thesis by (simp add: Let_def tables_of_def)
    next
      case cm: (Inr cm)
      show ?thesis
      proof (cases "load_index (snd pi) GATT_DESCRIPTOR_INTERFACE ''Characteristic'' (fst pi)
                      (descriptor_map t)")
        case (Inl e)
        with eq sm cm show ?thesis by (simp add: Let_def tables_of_def)
      next
        case dm: (Inr dm)
        have "tables_of ((?step s)\<lparr>service_map := sm, characteristic_map := cm, descriptor_map := dm\<rparr>)
            = tables_of ((?step t)\<lparr>service_map := sm, characteristic_map := cm, descriptor_map := dm\<rparr>)"
          using eq by (simp add: tables_of_def)
        from Cons.IH [OF this] eq sm cm dm show ?thesis by (simp add: Let_def)
      qed
    qed
  qed
qed

lemma clear_tables_init: "tables_of (clear_tables s) = tables_of manager_init"
  by (simp add: clear_tables_def tables_of_def manager_init_def)

lemma init_setup_reply:
  assumes "init_setup env ie w = (r, w', tr)"
    and "MethodCall ''/'' ''GetManagedObjects'' \<in> set tr"
  shows "case snd (ie_managed_objects ie) of
           MethodReturn objects \<Rightarrow>
             r = fst (load_objects objects (clear_tables (fst (deliver env (init_signals ie) w)))) \<and>
             fst w' = snd (load_objects objects (clear_tables (fst (deliver env (init_signals ie) w))))
         | ErrorReply name \<Rightarrow> r = Inl (BleakDBusError name) \<and> w' = deliver env (init_signals ie) w"
  using assms
  by (auto simp: init_setup_def await_checked_def await_reply_def assert_reply_def Let_def
        init_signals_def deliver_append
      split: prod.splits sum.splits reply.splits)


lemma load_objects_dom:
  "load_objects objs s = (Inr (), s') \<Longrightarrow> dom (properties s') = dom (properties s) \<union> fst ` set objs"
proof (induction objs arbitrary: s)
  case Nil
  then show ?case by simp
next
  case (Cons pi rest)
  from Cons.prems obtain sm cm dm where
    rec: "load_objects rest
            (s\<lparr>properties := (properties s)(fst pi \<mapsto> unpack_interfaces (snd pi)),
               service_map := sm, characteristic_map := cm, descriptor_map := dm\<rparr>) = (Inr (), s')"
    by (auto simp: Let_def split: sum.splits)
  from Cons.IH [OF rec] show ?case by auto
qed

text \<open>
  Claim C3, as stated: the tables are cleared before the bulk read is issued. The read is
  issued here and answered with an error, no signal arrives, and the device of the old
  session is still in the property table afterwards.
\<close>

theorem tables_not_cleared_before_read_counterexample:
  "fst (async_init (\<lambda>c s. []) (example_init_env (ErrorReply ''org.freedesktop.DBus.Error.NoReply''))
          (example_stale, []))
     = Inl (BleakDBusError ''org.freedesktop.DBus.Error.NoReply'') \<and>
   snd (snd (async_init (\<lambda>c s. []) (example_init_env (ErrorReply ''org.freedesktop.DBus.Error.NoReply''))
          (example_stale, [])))
     = [BusConnect, AddMessageHandler, AddMatch ''InterfacesAdded'', AddMatch ''InterfacesRemoved'',
        AddMatch ''PropertiesChanged'', MethodCall ''/'' ''GetManagedObjects'', BusDisconnect] \<and>
   properties
       (fst (fst (snd (async_init (\<lambda>c s. [])
          (example_init_env (ErrorReply ''org.freedesktop.DBus.Error.NoReply'')) (example_stale, [])))))
       ''/org/bluez/hci0/dev_OLD''
     \<noteq> None"
  by (simp add: async_init_def init_setup_def await_checked_def await_reply_def assert_reply_def
        example_init_env_def example_stale_def manager_init_def Let_def)

text \<open>
  Claim C3, amended. In \<open>async_init\<close> on a manager that is not connected, once the bulk
  read has been issued: if the reply is accepted, the property table and the three index
  maps are cleared after the reply has arrived, immediately before they are filled from
  it, so they are what the reply alone produces from empty tables, and after a
  successful initialisation the property table has an entry for exactly the paths of
  the reply: no entry of an earlier session and no entry made by a signal that was
  delivered meanwhile survives. If the reply is an error, the error is raised and
  nothing has been cleared: the state is the one that the delivered signals left.
\<close>

theorem tables_cleared_after_reply:
  assumes "bus (fst w) \<noteq> Some True"
    and "async_init env ie w = (r, w', tr)"
    and "MethodCall ''/'' ''GetManagedObjects'' \<in> set tr"
  shows "case snd (ie_managed_objects ie) of
           MethodReturn objects \<Rightarrow>
             r = fst (load_objects objects manager_init) \<and>
             tables_of (fst w') = tables_of (snd (load_objects objects manager_init)) \<and>
             (r = Inr () \<longrightarrow> dom (properties (fst w')) = fst ` set objects)
         | ErrorReply name \<Rightarrow>
             r = Inl (BleakDBusError name) \<and>
             w' = deliver env (init_signals ie) ((fst w)\<lparr>services_cache := Map.empty\<rparr>, snd w)"
proof -
  let ?w0 = "((fst w)\<lparr>services_cache := Map.empty\<rparr>, snd w)"
  from assms obtain u where c: "ie_connect ie = Inr u"
    by (cases "ie_connect ie") (auto simp: async_init_def Let_def)
  obtain r1 w1 t1 where st: "init_setup env ie ?w0 = (r1, w1, t1)"
    by (metis prod_cases3)
  from assms c st have r: "r = r1" and tw: "tables_of (fst w') = tables_of (fst w1)"
    and ww: "(\<exists>e. r1 = Inl e) \<longrightarrow> w' = w1" and tr: "MethodCall ''/'' ''GetManagedObjects'' \<in> set t1"
    by (cases r1; auto simp: async_init_def Let_def tables_of_def)+
  note rep = init_setup_reply [OF st tr]
  show ?thesis
  proof (cases "snd (ie_managed_objects ie)")
    case (ErrorReply name)
    with rep r ww show ?thesis by simp
  next
    case (MethodReturn objects)
    let ?s4 = "clear_tables (fst (deliver env (init_signals ie) ?w0))"
    from rep MethodReturn have r1: "r1 = fst (load_objects objects ?s4)"
      and w1: "fst w1 = snd (load_objects objects ?s4)"
      by simp_all
    from load_objects_tables [OF clear_tables_init, of objects "fst (deliver env (init_signals ie) ?w0)"]
    have same: "fst (load_objects objects ?s4) = fst (load_objects objects manager_init)"
      "tables_of (snd (load_objects objects ?s4)) = tables_of (snd (load_objects objects manager_init))"
      by simp_all
    have "dom (properties (fst w')) = fst ` set objects" if ok: "r = Inr ()"
    proof -
      from ok r r1 have "load_objects objects ?s4 = (Inr (), snd (load_objects objects ?s4))"
        by (metis prod.collapse)
      from load_objects_dom [OF this] have "dom (properties (snd (load_objects objects ?s4))) = fst ` set objects"
        by (simp add: clear_tables_def)
      with tw w1 show ?thesis by (simp add: tables_of_def)
    qed
    with MethodReturn r r1 tw w1 same show ?thesis by simp
  qed
qed

theorem tables_cleared_after_reply_witness:
  "fst (async_init (\<lambda>c s. [])
          (example_init_env (MethodReturn [(''/org/bluez/hci0'', [(''org.bluez.Adapter1'', [])])]))
          (example_stale, []))
     = Inr () \<and>
   dom (properties (fst (fst (snd (async_init (\<lambda>c s. [])
          (example_init_env (MethodReturn [(''/org/bluez/hci0'', [(''org.bluez.Adapter1'', [])])]))
          (example_stale, []))))))
     = {''/org/bluez/hci0''} \<and>
   properties example_stale ''/org/bluez/hci0/dev_OLD'' \<noteq> None"
proof -
  let ?ie = "example_init_env (MethodReturn [(''/org/bluez/hci0'', [(''org.bluez.Adapter1'', [])])])"
  let ?a = "async_init (\<lambda>c s. []) ?ie (example_stale, [])"
  have nb: "bus (fst (example_stale, [])) \<noteq> Some True"
    by (simp add: example_stale_def manager_init_def)
  have run: "?a = (fst ?a, fst (snd ?a), snd (snd ?a))" by simp
  have ok: "fst ?a = Inr ()"
    by (simp add: async_init_def init_setup_def await_checked_def await_reply_def assert_reply_def
          example_init_env_def example_stale_def manager_init_def Let_def load_index_def
          get_nonempty_def GATT_SERVICE_INTERFACE_def GATT_CHARACTERISTIC_INTERFACE_def
          GATT_DESCRIPTOR_INTERFACE_def clear_tables_def)
  have tr: "MethodCall ''/'' ''GetManagedObjects'' \<in> set (snd (snd ?a))"
    by (simp add: async_init_def init_setup_def await_checked_def await_reply_def assert_reply_def
          example_init_env_def example_stale_def manager_init_def Let_def load_index_def
          get_nonempty_def GATT_SERVICE_INTERFACE_def GATT_CHARACTERISTIC_INTERFACE_def
          GATT_DESCRIPTOR_INTERFACE_def clear_tables_def)
  from tables_cleared_after_reply [OF nb run tr] ok
  have "dom (properties (fst (fst (snd ?a)))) = {''/org/bluez/hci0''}"
    by (simp add: example_init_env_def)
  moreover have "properties example_stale ''/org/bluez/hci0/dev_OLD'' \<noteq> None"
    by (simp add: example_stale_def manager_init_def)
  ultimately show ?thesis using ok by simp
qed

section \<open>The state that callbacks leave alone\<close>

lemma only_watchers_refl [simp]: "only_watchers s s"
proof -
  have "s = s\<lparr>device_watchers := device_watchers s\<rparr>" by simp
  then show ?thesis unfolding only_watchers_def by blast
qed

lemma only_watchers_trans: "only_watchers s s' \<Longrightarrow> only_watchers s' s'' \<Longrightarrow> only_watchers s s''"
  by (auto simp: only_watchers_def)

lemma only_watchers_update [simp]: "only_watchers s (s\<lparr>device_watchers := ws\<rparr>)"
  by (auto simp: only_watchers_def)

lemma only_watchers_fields:
  assumes "only_watchers s s'"
  shows "properties s' = properties s" "service_map s' = service_map s"
    "characteristic_map s' = characteristic_map s" "descriptor_map s' = descriptor_map s"
    "services_cache s' = services_cache s" "condition_callbacks s' = condition_callbacks s"
    "advertisement_callbacks s' = advertisement_callbacks s"
    "device_removed_callbacks s' = device_removed_callbacks s" "bus s' = bus s"
  using assms by (auto simp: only_watchers_def)

lemma run_api_frame: "only_watchers s (snd (run_api cs s))"
proof (induction cs s rule: run_api.induct)
  case (1 s)
  show ?case by simp
next
  case (2 p c1 c2 rest s)
  have "only_watchers s (snd (add_device_watcher p c1 c2 s))"
    by (auto simp: add_device_watcher_def only_watchers_def Let_def)
  with 2 show ?case by (auto intro: only_watchers_trans)
next
  case (3 x rest s)
  show ?case
  proof (cases "x \<in> set (device_watchers s)")
    case True
    have "only_watchers s (s\<lparr>device_watchers := remove1 x (device_watchers s)\<rparr>)"
      by (auto simp: only_watchers_def)
    moreover from True 3 have "only_watchers (s\<lparr>device_watchers := remove1 x (device_watchers s)\<rparr>)
        (snd (run_api rest (s\<lparr>device_watchers := remove1 x (device_watchers s)\<rparr>)))"
      by (simp add: remove_device_watcher_def)
    ultimately show ?thesis using True
      by (auto simp: remove_device_watcher_def intro: only_watchers_trans [OF only_watchers_update])
  next
    case False
    then show ?thesis by (simp add: remove_device_watcher_def)
  qed
qed

lemma invoke_frame: "only_watchers (fst w) (fst (snd (invoke env c w)))"
  using run_api_frame [of "fst w" "env c (fst w)"]
  by (auto simp: invoke_def split: prod.splits)

lemma advertisement_loop_frame:
  "only_watchers (fst w) (fst (snd (advertisement_loop env dp dev cs w)))"
proof (induction cs arbitrary: w)
  case Nil
  show ?case by simp
next
  case (Cons c cs)
  show ?case
  proof (cases "prefix (cs_adapter_path c) dp")
    case False
    with Cons show ?thesis by simp
  next
    case True
    obtain r w' where iv: "invoke env (AdvertisementCall (cs_callback c) dp dev) w = (r, w')"
      by (metis surj_pair)
    with invoke_frame [of w env "AdvertisementCall (cs_callback c) dp dev"]
    have k: "only_watchers (fst w) (fst w')" by simp
    show ?thesis
    proof (cases r)
      case (Inl e)
      with True iv k show ?thesis by simp
    next
      case (Inr u)
      with True iv k Cons [of w'] show ?thesis by (auto intro: only_watchers_trans)
    qed
  qed
qed

lemma run_advertisement_callbacks_frame:
  "only_watchers (fst w) (fst (snd (run_advertisement_callbacks env dp dev ch w)))"
  by (simp add: run_advertisement_callbacks_def advertisement_loop_frame)

lemma device_removed_loop_frame:
  "only_watchers (fst w) (fst (snd (device_removed_loop env p cs w)))"
proof (induction cs arbitrary: w)
  case Nil
  show ?case by simp
next
  case (Cons c cs)
  show ?case
  proof (cases "prefix (dr_adapter_path c) p")
    case False
    with Cons show ?thesis by simp
  next
    case True
    obtain r w' where iv: "invoke env (DeviceRemovedCall (dr_callback c) p) w = (r, w')"
      by (metis surj_pair)
    with invoke_frame [of w env "DeviceRemovedCall (dr_callback c) p"]
    have k: "only_watchers (fst w) (fst w')" by simp
    show ?thesis
    proof (cases r)
      case (Inl e)
      with True iv k show ?thesis by simp
    next
      case (Inr u)
      with True iv k Cons [of w'] show ?thesis by (auto intro: only_watchers_trans)
    qed
  qed
qed

lemma connected_loop_frame:
  "only_watchers (fst w) (fst (snd (connected_loop env p si xs w)))"
proof (induction xs arbitrary: w)
  case Nil
  show ?case by simp
next
  case (Cons x xs)
  show ?case
  proof (cases "p = dw_device_path x \<and> si ''Connected'' \<noteq> None")
    case False
    with Cons show ?thesis by (auto split: option.splits)
  next
    case True
    then obtain v where v: "si ''Connected'' = Some v" by auto
    obtain r w' where iv: "invoke env (ConnectedChangedCall (dw_on_connected_changed x) v) w = (r, w')"
      by (metis surj_pair)
    with invoke_frame [of w env "ConnectedChangedCall (dw_on_connected_changed x) v"]
    have k: "only_watchers (fst w) (fst w')" by simp
    show ?thesis
    proof (cases r)
      case (Inl e)
      with True v iv k show ?thesis by simp
    next
      case (Inr u)
      with True v iv k Cons [of w'] show ?thesis by (auto intro: only_watchers_trans)
    qed
  qed
qed

lemma value_loop_frame:
  "only_watchers (fst w) (fst (snd (value_loop env n p si xs w)))"
proof (induction xs arbitrary: w)
  case Nil
  show ?case by simp
next
  case (Cons x xs)
  show ?case
  proof (cases "length (device_watchers (fst w)) = n \<and> x \<in> set (device_watchers (fst w)) \<and>
                prefix (dw_device_path x) p \<and> si ''Value'' \<noteq> None")
    case False
    with Cons show ?thesis by (auto split: option.splits)
  next
    case True
    then obtain v where v: "si ''Value'' = Some v" by auto
    obtain r w' where iv:
      "invoke env (ValueChangedCall (dw_on_characteristic_value_changed x) p v) w = (r, w')"
      by (metis surj_pair)
    with invoke_frame [of w env "ValueChangedCall (dw_on_characteristic_value_changed x) p v"]
    have k: "only_watchers (fst w) (fst w')" by simp
    show ?thesis
    proof (cases r)
      case (Inl e)
      with True v iv k show ?thesis by simp
    next
      case (Inr u)
      with True v iv k Cons [of w'] show ?thesis by (auto intro: only_watchers_trans)
    qed
  qed
qed


lemma changed_callbacks_frame:
  "only_watchers (fst w) (fst (snd (changed_callbacks env p i si ch w)))"
proof (cases "i = DEVICE_INTERFACE")
  case True
  obtain r1 w1 where ra: "run_advertisement_callbacks env p si ch w = (r1, w1)"
    by (metis surj_pair)
  with run_advertisement_callbacks_frame [of w env p si ch]
  have k1: "only_watchers (fst w) (fst w1)" by simp
  obtain r2 w2 where cl: "condition_loop (condition_callbacks (fst w1)) w1 = (r2, w2)"
    by (metis surj_pair)
  with condition_loop_state [of "condition_callbacks (fst w1)" w1] have "fst w2 = fst w1" by simp
  with k1 have k2: "only_watchers (fst w) (fst w2)" by simp
  from connected_loop_frame [of w2 env p si "device_watchers (fst w2)"] k2
  have k3: "only_watchers (fst w) (fst (snd (connected_loop env p si (device_watchers (fst w2)) w2)))"
    by (rule only_watchers_trans [rotated])
  from True ra cl k1 k2 k3 show ?thesis
    by (cases r1; cases r2) (simp_all add: changed_callbacks_def)
next
  case False
  then show ?thesis
    by (simp add: changed_callbacks_def value_loop_frame)
qed

section \<open>Properties of the condition waiter\<close>

lemma await_event_regs:
  "await_event env cid sched w = (r, w', rest) \<Longrightarrow> regs_kept (fst w) (fst w')"
proof (induction sched arbitrary: w)
  case Nil
  then show ?case by simp
next
  case (Cons ev sched)
  show ?case
  proof (cases ev)
    case Cancel
    with Cons.prems show ?thesis by simp
  next
    case (Signal m)
    have k: "regs_kept (fst w) (fst (snd (parse_msg env m w)))" by (rule parse_msg_regs)
    show ?thesis
    proof (cases "EventSet cid \<in> set (drop (length (snd w)) (snd (snd (parse_msg env m w))))")
      case True
      with Cons.prems Signal k show ?thesis by (simp add: Let_def)
    next
      case False
      with Cons.prems Signal have "await_event env cid sched (snd (parse_msg env m w)) = (r, w', rest)"
        by (simp add: Let_def)
      from Cons.IH [OF this] k show ?thesis by (rule regs_kept_trans [rotated])
    qed
  qed
qed

text \<open>
  Claim C8. For a closure that is new (not in the set yet): \<open>_wait_condition\<close> returns at
  once, with nothing registered and nothing consumed, when the property already equals
  the value; whenever the call ends, by a normal wake-up, by cancellation or by an
  exception, the set of condition closures is the set before the call, so the closure
  is not left registered; it is registered exactly while the call is suspended; and a
  cancellation of the suspended call ends it with CancelledError.
\<close>

theorem wait_condition_cleanup:
  assumes "ConditionCallback cid dp name val \<notin> set (condition_callbacks (fst w))"
  shows "(\<forall>v. lookup_property (fst w) dp DEVICE_INTERFACE name = Some v \<and> py_eq v val \<longrightarrow>
            wait_condition env cid dp name val sched w = (Some (Inr ()), w, sched)) \<and>
         (\<forall>r w' rest. wait_condition env cid dp name val sched w = (Some r, w', rest) \<longrightarrow>
            condition_callbacks (fst w') = condition_callbacks (fst w)) \<and>
         (\<forall>w' rest. wait_condition env cid dp name val sched w = (None, w', rest) \<longrightarrow>
            ConditionCallback cid dp name val \<in> set (condition_callbacks (fst w'))) \<and>
         (\<forall>v rest. lookup_property (fst w) dp DEVICE_INTERFACE name = Some v \<and> \<not> py_eq v val \<longrightarrow>
            fst (wait_condition env cid dp name val (Cancel # rest) w) = Some (Inl CancelledError))"
proof (intro conjI allI impI)
  fix v
  assume "lookup_property (fst w) dp DEVICE_INTERFACE name = Some v \<and> py_eq v val"
  then show "wait_condition env cid dp name val sched w = (Some (Inr ()), w, sched)"
    by (simp add: wait_condition_def)
next
  fix r w' rest
  assume run: "wait_condition env cid dp name val sched w = (Some r, w', rest)"
  let ?cb = "ConditionCallback cid dp name val"
  let ?w0 = "((fst w)\<lparr>condition_callbacks := List.insert ?cb (condition_callbacks (fst w))\<rparr>, snd w)"
  show "condition_callbacks (fst w') = condition_callbacks (fst w)"
  proof (cases "lookup_property (fst w) dp DEVICE_INTERFACE name")
    case None
    with run show ?thesis by (simp add: wait_condition_def)
  next
    case (Some v)
    show ?thesis
    proof (cases "py_eq v val")
      case True
      with run Some show ?thesis by (simp add: wait_condition_def)
    next
      case False
      obtain r1 w1 rest1 where aw: "await_event env cid sched ?w0 = (r1, w1, rest1)"
        by (metis prod_cases3)
      then have "regs_kept (fst ?w0) (fst w1)" by (rule await_event_regs)
      then have cc: "condition_callbacks (fst w1) = ?cb # condition_callbacks (fst w)"
        using assms by (simp add: regs_kept_def List.insert_def)
      from run Some False aw obtain r0 where r1: "r1 = Some r0"
        by (cases r1) (auto simp: wait_condition_def Let_def)
      from run Some False aw r1 cc
      have "fst w' = (fst w1)\<lparr>condition_callbacks := remove1 ?cb (?cb # condition_callbacks (fst w))\<rparr>"
        by (auto simp: wait_condition_def Let_def unregister_condition_def)
      then show ?thesis by simp
    qed
  qed
next
  fix w' rest
  assume run: "wait_condition env cid dp name val sched w = (None, w', rest)"
  let ?cb = "ConditionCallback cid dp name val"
  let ?w0 = "((fst w)\<lparr>condition_callbacks := List.insert ?cb (condition_callbacks (fst w))\<rparr>, snd w)"
  obtain r1 w1 rest1 where aw: "await_event env cid sched ?w0 = (r1, w1, rest1)"
    by (metis prod_cases3)
  then have "regs_kept (fst ?w0) (fst w1)" by (rule await_event_regs)
  then have cc: "condition_callbacks (fst w1) = ?cb # condition_callbacks (fst w)"
    using assms by (simp add: regs_kept_def List.insert_def)
  from run aw have "w' = w1"
    by (auto simp: wait_condition_def Let_def unregister_condition_def
             split: option.splits if_splits prod.splits)
  with cc show "?cb \<in> set (condition_callbacks (fst w'))" by simp
next
  fix v rest
  assume "lookup_property (fst w) dp DEVICE_INTERFACE name = Some v \<and> \<not> py_eq v val"
  then show "fst (wait_condition env cid dp name val (Cancel # rest) w) = Some (Inl CancelledError)"
    by (simp add: wait_condition_def Let_def unregister_condition_def)
qed


lemma example_wake_up:
  "fst (wait_condition (\<lambda>c s. []) 7 ''/org/bluez/hci0/dev_AA'' ''ServicesResolved'' (VBool True)
          [Signal example_resolved_signal] (example_unresolved, []))
     = Some (Inr ())"
  by (simp add: wait_condition_def lookup_property_def example_unresolved_def manager_init_def
        example_resolved_signal_def properties_changed_def
        unpack_variants_def table_set_def changed_callbacks_def run_advertisement_callbacks_def
        unregister_condition_def Let_def)

theorem wait_condition_cleanup_witness:
  "fst (wait_condition (\<lambda>c s. []) 7 ''/org/bluez/hci0/dev_AA'' ''ServicesResolved'' (VBool True)
          [Signal example_resolved_signal] (example_unresolved, []))
     = Some (Inr ()) \<and>
   condition_callbacks (fst (fst (snd
       (wait_condition (\<lambda>c s. []) 7 ''/org/bluez/hci0/dev_AA'' ''ServicesResolved'' (VBool True)
          [Signal example_resolved_signal] (example_unresolved, [])))))
     = [] \<and>
   fst (wait_condition (\<lambda>c s. []) 7 ''/org/bluez/hci0/dev_AA'' ''ServicesResolved'' (VBool True)
          [Cancel] (example_unresolved, []))
     = Some (Inl CancelledError) \<and>
   condition_callbacks (fst (fst (snd
       (wait_condition (\<lambda>c s. []) 7 ''/org/bluez/hci0/dev_AA'' ''ServicesResolved'' (VBool True)
          [Cancel] (example_unresolved, [])))))
     = [] \<and>
   fst (wait_condition (\<lambda>c s. []) 7 ''/org/bluez/hci0/dev_AA'' ''ServicesResolved'' (VBool True)
          [] (example_unresolved, []))
     = None \<and>
   ConditionCallback 7 ''/org/bluez/hci0/dev_AA'' ''ServicesResolved'' (VBool True)
     \<in> set (condition_callbacks (fst (fst (snd
       (wait_condition (\<lambda>c s. []) 7 ''/org/bluez/hci0/dev_AA'' ''ServicesResolved'' (VBool True)
          [] (example_unresolved, []))))))"
proof -
  let ?wc = "\<lambda>sched. wait_condition (\<lambda>c s. []) 7 ''/org/bluez/hci0/dev_AA'' ''ServicesResolved''
               (VBool True) sched (example_unresolved, [])"
  have fresh: "ConditionCallback 7 ''/org/bluez/hci0/dev_AA'' ''ServicesResolved'' (VBool True)
                 \<notin> set (condition_callbacks (fst (example_unresolved, [])))"
    by (simp add: example_unresolved_def manager_init_def)
  have none: "condition_callbacks (fst (example_unresolved, [])) = []"
    by (simp add: example_unresolved_def manager_init_def)
  have lk: "lookup_property (fst (example_unresolved, [])) ''/org/bluez/hci0/dev_AA'' DEVICE_INTERFACE
              ''ServicesResolved'' = Some (VBool False) \<and> \<not> py_eq (VBool False) (VBool True)"
    by (simp add: lookup_property_def example_unresolved_def manager_init_def)
  have w: "fst (?wc [Signal example_resolved_signal]) = Some (Inr ())" by (rule example_wake_up)
  then have rw: "?wc [Signal example_resolved_signal]
      = (Some (Inr ()), fst (snd (?wc [Signal example_resolved_signal])),
         snd (snd (?wc [Signal example_resolved_signal])))"
    by (metis prod.collapse)
  have p: "fst (?wc []) = None"
    by (simp add: wait_condition_def lookup_property_def example_unresolved_def manager_init_def Let_def)
  then have rp: "?wc [] = (None, fst (snd (?wc [])), snd (snd (?wc [])))"
    by (metis prod.collapse)
  note inst = wait_condition_cleanup [OF fresh, of "\<lambda>c s. []"]
  from inst [of "[]"] lk have c: "fst (?wc [Cancel]) = Some (Inl CancelledError)" by blast
  then have rc: "?wc [Cancel] = (Some (Inl CancelledError), fst (snd (?wc [Cancel])), snd (snd (?wc [Cancel])))"
    by (metis prod.collapse)
  from inst [of "[Signal example_resolved_signal]"] rw none
  have c1: "condition_callbacks (fst (fst (snd (?wc [Signal example_resolved_signal])))) = []"
    by metis
  from inst [of "[Cancel]"] rc none
  have c2: "condition_callbacks (fst (fst (snd (?wc [Cancel])))) = []"
    by metis
  from inst [of "[]"] rp
  have c3: "ConditionCallback 7 ''/org/bluez/hci0/dev_AA'' ''ServicesResolved'' (VBool True)
              \<in> set (condition_callbacks (fst (fst (snd (?wc [])))))"
    by metis
  from w c p c1 c2 c3 show ?thesis by simp
qed

section \<open>The events that the signal handler sets\<close>

lemma no_events_refl [simp]: "no_events w w"
  by (simp add: no_events_def)

lemma no_events_state [simp]: "no_events (s, l) (s', l)"
  by (simp add: no_events_def)

lemma no_events_trans: "no_events w w' \<Longrightarrow> no_events w' w'' \<Longrightarrow> no_events w w''"
  by (auto simp: no_events_def)

lemma invoke_no_events:
  "invoke env c w = (r, w') \<Longrightarrow> (\<forall>n. c \<noteq> EventSet n) \<Longrightarrow> no_events w w'"
  by (auto simp: invoke_def no_events_def split: prod.splits)

lemma advertisement_loop_log: "no_events w (snd (advertisement_loop env dp dev cs w))"
  by (induction cs arbitrary: w)
     (auto split: prod.splits sum.splits dest!: invoke_no_events intro: no_events_trans)

lemma device_removed_loop_log: "no_events w (snd (device_removed_loop env p cs w))"
  by (induction cs arbitrary: w)
     (auto split: prod.splits sum.splits dest!: invoke_no_events intro: no_events_trans)

lemma connected_loop_log: "no_events w (snd (connected_loop env p si xs w))"
  by (induction xs arbitrary: w)
     (auto split: prod.splits sum.splits option.splits dest!: invoke_no_events intro: no_events_trans)

lemma value_loop_log: "no_events w (snd (value_loop env n p si xs w))"
  by (induction xs arbitrary: w)
     (auto split: prod.splits sum.splits option.splits dest!: invoke_no_events intro: no_events_trans)


lemma run_advertisement_callbacks_log:
  "no_events w (snd (run_advertisement_callbacks env dp dev ch w))"
  by (simp add: run_advertisement_callbacks_def advertisement_loop_log)

lemma interfaces_added_log: "no_events w (snd (interfaces_added env p ifs w))"
proof (induction ifs arbitrary: w)
  case Nil
  show ?case by simp
next
  case (Cons ip rest)
  let ?s1 = "table_add p (fst ip) (unpack_variants (snd ip)) (fst w)"
  show ?case
  proof (cases "index_interface (fst ip) (unpack_variants (snd ip)) p ?s1")
    case (Inl e)
    then show ?thesis by (simp add: Let_def no_events_def)
  next
    case (Inr s2)
    have a: "no_events w (s2, snd w)" by (simp add: no_events_def)
    show ?thesis
    proof (cases "fst ip = DEVICE_INTERFACE")
      case False
      with Inr a Cons [of "(s2, snd w)"] show ?thesis
        by (auto simp: Let_def intro: no_events_trans)
    next
      case True
      obtain r w' where ra: "run_advertisement_callbacks env p (unpack_variants (snd ip))
                               (map fst (snd ip)) (s2, snd w) = (r, w')"
        by (metis surj_pair)
      with run_advertisement_callbacks_log [of "(s2, snd w)" env p "unpack_variants (snd ip)" "map fst (snd ip)"]
      have "no_events (s2, snd w) w'" by simp
      with a have b: "no_events w w'" by (rule no_events_trans)
      from True Inr ra b Cons [of w'] show ?thesis
        by (cases r) (auto simp: Let_def intro: no_events_trans)
    qed
  qed
qed

lemma interfaces_removed_log: "no_events w (snd (interfaces_removed env p ifs w))"
proof (induction ifs arbitrary: w)
  case Nil
  show ?case by simp
next
  case (Cons i rest)
  let ?s1 = "table_remove p i (fst w)"
  show ?case
  proof (cases "i = DEVICE_INTERFACE")
    case True
    let ?s2 = "?s1\<lparr>services_cache := (services_cache ?s1)(p := None),
                     service_map := (service_map ?s1)(p := None)\<rparr>"
    have a: "no_events w (?s2, snd w)" by (simp add: no_events_def)
    obtain r w' where dl: "device_removed_loop env p (device_removed_callbacks ?s2) (?s2, snd w) = (r, w')"
      by (metis surj_pair)
    with device_removed_loop_log [of "(?s2, snd w)" env p "device_removed_callbacks ?s2"]
    have "no_events (?s2, snd w) w'" by simp
    with a have b: "no_events w w'" by (rule no_events_trans)
    from True dl b Cons [of w'] show ?thesis
      by (cases r) (auto simp: Let_def intro: no_events_trans)
  next
    case False
    have a: "\<And>s. no_events w (s, snd w)" by (simp add: no_events_def)
    from False a Cons show ?thesis
      by (auto simp: Let_def intro: no_events_trans)
  qed
qed

lemma condition_loop_log:
  "\<exists>ext. snd (snd (condition_loop cs w)) = snd w @ ext \<and>
         (\<forall>n. EventSet n \<in> set ext \<longrightarrow> (\<exists>c \<in> set cs. cc_id c = n \<and> condition_holds c (fst w)))"
proof (induction cs arbitrary: w)
  case Nil
  show ?case by simp
next
  case (Cons c cs)
  show ?case
  proof (cases "lookup_property (fst w) (cc_device_path c) DEVICE_INTERFACE (cc_property_name c)")
    case None
    then show ?thesis by simp
  next
    case (Some v)
    show ?thesis
    proof (cases "py_eq v (cc_property_value c)")
      case False
      with Some Cons [of w] show ?thesis by auto
    next
      case True
      from Cons [of "(fst w, snd w @ [EventSet (cc_id c)])"] obtain ext where
        e: "snd (snd (condition_loop cs (fst w, snd w @ [EventSet (cc_id c)])))
              = (snd w @ [EventSet (cc_id c)]) @ ext"
        and j: "\<forall>n. EventSet n \<in> set ext \<longrightarrow> (\<exists>c \<in> set cs. cc_id c = n \<and> condition_holds c (fst w))"
        by auto
      have h: "condition_holds c (fst w)" using Some True by (simp add: condition_holds_def)
      from e have "snd (snd (condition_loop (c # cs) w)) = snd w @ (EventSet (cc_id c) # ext)"
        using Some True by simp
      moreover from j h have "\<forall>n. EventSet n \<in> set (EventSet (cc_id c) # ext) \<longrightarrow>
          (\<exists>c' \<in> set (c # cs). cc_id c' = n \<and> condition_holds c' (fst w))"
        by auto
      ultimately show ?thesis by blast
    qed
  qed
qed


lemma no_events_justified: "no_events w w' \<Longrightarrow> events_justified cs w w'"
  by (auto simp: no_events_def events_justified_def)

lemma changed_callbacks_log:
  "events_justified (condition_callbacks (fst w)) w (snd (changed_callbacks env p i si ch w))"
proof (cases "i = DEVICE_INTERFACE")
  case False
  then show ?thesis
    by (auto simp: changed_callbacks_def value_loop_log intro!: no_events_justified)
next
  case True
  obtain r1 w1 where ra: "run_advertisement_callbacks env p si ch w = (r1, w1)"
    by (metis surj_pair)
  from run_advertisement_callbacks_log [of w env p si ch] ra
  obtain e1 where e1: "snd w1 = snd w @ e1" "\<forall>n. EventSet n \<notin> set e1"
    by (auto simp: no_events_def)
  from run_advertisement_callbacks_frame [of w env p si ch] ra
  have f1: "only_watchers (fst w) (fst w1)" by simp
  obtain r2 w2 where cl: "condition_loop (condition_callbacks (fst w1)) w1 = (r2, w2)"
    by (metis surj_pair)
  from condition_loop_log [of "condition_callbacks (fst w1)" w1] cl
  obtain e2 where e2: "snd w2 = snd w1 @ e2"
    "\<forall>n. EventSet n \<in> set e2 \<longrightarrow>
       (\<exists>c \<in> set (condition_callbacks (fst w1)). cc_id c = n \<and> condition_holds c (fst w1))"
    by auto
  from condition_loop_state [of "condition_callbacks (fst w1)" w1] cl
  have s2: "fst w2 = fst w1" by simp
  let ?w3 = "snd (connected_loop env p si (device_watchers (fst w2)) w2)"
  from connected_loop_log [of w2 env p si "device_watchers (fst w2)"]
  obtain e3 where e3: "snd ?w3 = snd w2 @ e3" "\<forall>n. EventSet n \<notin> set e3"
    by (auto simp: no_events_def)
  from connected_loop_frame [of w2 env p si "device_watchers (fst w2)"]
  have f3: "only_watchers (fst w2) (fst ?w3)" .
  have cc: "condition_callbacks (fst w1) = condition_callbacks (fst w)"
    using f1 by (rule only_watchers_fields)
  have p1: "properties (fst w1) = properties (fst w)" using f1 by (rule only_watchers_fields)
  have p3: "properties (fst ?w3) = properties (fst w)"
    using only_watchers_fields(1) [OF f3] s2 p1 by simp
  have j1: "events_justified (condition_callbacks (fst w)) w w1"
    using e1 by (auto simp: events_justified_def)
  have j2: "events_justified (condition_callbacks (fst w)) w w2"
    using e1 e2 cc s2 by (auto simp: events_justified_def)
  have j3: "events_justified (condition_callbacks (fst w)) w ?w3"
  proof -
    have "snd ?w3 = snd w @ (e1 @ e2 @ e3)" using e1 e2 e3 by simp
    moreover have "\<forall>n. EventSet n \<in> set (e1 @ e2 @ e3) \<longrightarrow>
        (\<exists>c \<in> set (condition_callbacks (fst w)). cc_id c = n \<and> condition_holds c (fst ?w3))"
    proof (intro allI impI)
      fix n
      assume "EventSet n \<in> set (e1 @ e2 @ e3)"
      with e1 e3 have "EventSet n \<in> set e2" by auto
      with e2 cc obtain c where c: "c \<in> set (condition_callbacks (fst w))" "cc_id c = n"
        "condition_holds c (fst w1)" by auto
      from p3 p1 have "condition_holds c (fst ?w3) = condition_holds c (fst w1)"
        by (simp add: condition_holds_def lookup_property_def)
      with c show "\<exists>c \<in> set (condition_callbacks (fst w)). cc_id c = n \<and> condition_holds c (fst ?w3)"
        by blast
    qed
    ultimately show ?thesis unfolding events_justified_def by blast
  qed
  from True ra cl j1 j2 j3 show ?thesis
    by (cases r1; cases r2) (simp_all add: changed_callbacks_def)
qed

lemma properties_changed_log:
  "events_justified (condition_callbacks (fst w)) w (snd (properties_changed env mp i ch ivd w))"
proof (cases mp)
  case None
  then show ?thesis by (simp add: properties_changed_def no_events_justified)
next
  case (Some p)
  show ?thesis
  proof (cases "lookup_interface (fst w) p i")
    case None
    with Some show ?thesis
      by (auto simp: properties_changed_def lookup_interface_def no_events_justified
               split: option.splits)
  next
    case si: (Some self_interface)
    then obtain ifs where ifs: "properties (fst w) p = Some ifs" "ifs i = Some self_interface"
      by (auto simp: lookup_interface_def split: option.splits)
    obtain r ps where di: "delete_invalidated ivd (self_interface ++ unpack_variants ch) = (r, ps)"
      by (metis surj_pair)
    let ?w1 = "(table_set p i ps (fst w), snd w)"
    have cc: "condition_callbacks (fst ?w1) = condition_callbacks (fst w)"
      using table_set_regs [of "fst w" p i ps] by (simp add: regs_kept_def)
    show ?thesis
    proof (cases r)
      case (Inl e)
      with Some ifs di show ?thesis
        by (simp add: properties_changed_def events_justified_def)
    next
      case (Inr u)
      from changed_callbacks_log [of ?w1 env p i ps "map fst ch"] cc
      have "events_justified (condition_callbacks (fst w)) w
              (snd (changed_callbacks env p i ps (map fst ch) ?w1))"
        by (simp add: events_justified_def)
      with Some ifs di Inr show ?thesis by (simp add: properties_changed_def)
    qed
  qed
qed

lemma parse_msg_log:
  "events_justified (condition_callbacks (fst w)) w (snd (parse_msg env m w))"
  by (cases m)
     (simp_all add: interfaces_added_log interfaces_removed_log properties_changed_log
        no_events_justified)

lemma await_event_woken:
  "await_event env cid sched w = (Some (Inr ()), w', rest) \<Longrightarrow>
   \<exists>c \<in> set (condition_callbacks (fst w)). cc_id c = cid \<and> condition_holds c (fst w')"
proof (induction sched arbitrary: w)
  case Nil
  then show ?case by simp
next
  case (Cons ev sched)
  show ?case
  proof (cases ev)
    case Cancel
    with Cons.prems show ?thesis by simp
  next
    case (Signal m)
    let ?w1 = "snd (parse_msg env m w)"
    from parse_msg_log [of w env m] obtain ext where
      ext: "snd ?w1 = snd w @ ext"
      and j: "\<forall>n. EventSet n \<in> set ext \<longrightarrow>
               (\<exists>c \<in> set (condition_callbacks (fst w)). cc_id c = n \<and> condition_holds c (fst ?w1))"
      by (auto simp: events_justified_def)
    show ?thesis
    proof (cases "EventSet cid \<in> set ext")
      case True
      with Cons.prems Signal ext have "w' = ?w1" by (simp add: Let_def)
      with j True show ?thesis by blast
    next
      case False
      with Cons.prems Signal ext have "await_event env cid sched ?w1 = (Some (Inr ()), w', rest)"
        by (simp add: Let_def)
      from Cons.IH [OF this] parse_msg_regs [of w env m] show ?thesis
        by (simp add: regs_kept_def)
    qed
  qed
qed

section \<open>Properties of the cached services snapshot\<close>

lemma wait_condition_resolved:
  assumes run: "wait_condition env cid dp name val sched w = (Some (Inr ()), w', rest)"
    and fresh: "\<forall>c \<in> set (condition_callbacks (fst w)). cc_id c \<noteq> cid"
  shows "\<exists>v. lookup_property (fst w') dp DEVICE_INTERFACE name = Some v \<and> py_eq v val"
proof (cases "lookup_property (fst w) dp DEVICE_INTERFACE name")
  case None
  with run show ?thesis by (simp add: wait_condition_def)
next
  case (Some v)
  show ?thesis
  proof (cases "py_eq v val")
    case True
    with run Some show ?thesis by (simp add: wait_condition_def)
  next
    case False
    let ?cb = "ConditionCallback cid dp name val"
    let ?w0 = "((fst w)\<lparr>condition_callbacks := List.insert ?cb (condition_callbacks (fst w))\<rparr>, snd w)"
    obtain r1 w1 rest1 where aw: "await_event env cid sched ?w0 = (r1, w1, rest1)"
      by (metis prod_cases3)
    from run Some False aw have r1: "r1 = Some (Inr ())"
      and w': "fst w' = (fst w1)\<lparr>condition_callbacks := remove1 ?cb (condition_callbacks (fst w1))\<rparr>"
      by (auto simp: wait_condition_def Let_def unregister_condition_def
               split: option.splits if_splits)
    from await_event_woken [OF aw [unfolded r1]] fresh
    have "condition_holds ?cb (fst w1)" by auto
    with w' show ?thesis
      by (auto simp: condition_holds_def lookup_property_def split: option.splits)
  qed
qed

text \<open>
  Claim C5. \<open>cid\<close> is the identity of the closure that a waiting call creates; it is new.
  With \<open>use_cached\<close> set and a snapshot in the cache, \<open>get_services\<close> returns that
  snapshot at once: the state is untouched and nothing of the schedule is consumed.
  Otherwise, whenever it returns a snapshot, \<open>ServicesResolved\<close> of the device equals
  true in the state it returns in, and any later call with \<open>use_cached\<close> set returns the
  same snapshot at once; and while the property is not true and nothing happens, the
  call does not return.
\<close>

theorem get_services_cached_or_resolved:
  assumes "\<forall>c \<in> set (condition_callbacks (fst w)). cc_id c \<noteq> cid"
  shows "(\<forall>col. use_cached \<and> services_cache (fst w) dp = Some col \<longrightarrow>
            get_services api env cid dp use_cached sched w = (Some (Inr col), w, sched)) \<and>
         (\<forall>col w' rest.
            \<not> (use_cached \<and> services_cache (fst w) dp \<noteq> None) \<and>
            get_services api env cid dp use_cached sched w = (Some (Inr col), w', rest) \<longrightarrow>
            (\<exists>v. lookup_property (fst w') dp DEVICE_INTERFACE ''ServicesResolved'' = Some v \<and>
                 py_eq v (VBool True)) \<and>
            (\<forall>cid' sched'. get_services api env cid' dp True sched' w' = (Some (Inr col), w', sched'))) \<and>
         (\<forall>v. \<not> (use_cached \<and> services_cache (fst w) dp \<noteq> None) \<and>
              lookup_property (fst w) dp DEVICE_INTERFACE ''ServicesResolved'' = Some v \<and>
              \<not> py_eq v (VBool True) \<longrightarrow>
              fst (get_services api env cid dp use_cached [] w) = None)"
proof -
  have p1: "\<forall>col. use_cached \<and> services_cache (fst w) dp = Some col \<longrightarrow>
            get_services api env cid dp use_cached sched w = (Some (Inr col), w, sched)"
    by (simp add: get_services_def)
  have p2: "\<forall>col w' rest.
            \<not> (use_cached \<and> services_cache (fst w) dp \<noteq> None) \<and>
            get_services api env cid dp use_cached sched w = (Some (Inr col), w', rest) \<longrightarrow>
            (\<exists>v. lookup_property (fst w') dp DEVICE_INTERFACE ''ServicesResolved'' = Some v \<and>
                 py_eq v (VBool True)) \<and>
            (\<forall>cid' sched'. get_services api env cid' dp True sched' w' = (Some (Inr col), w', sched'))"
  proof (intro allI impI)
    fix col and w' :: world and rest
    assume a: "\<not> (use_cached \<and> services_cache (fst w) dp \<noteq> None) \<and>
               get_services api env cid dp use_cached sched w = (Some (Inr col), w', rest)"
    then have nc: "\<not> (use_cached \<and> services_cache (fst w) dp \<noteq> None)"
      and run: "get_services api env cid dp use_cached sched w = (Some (Inr col), w', rest)"
      by simp_all
    from get_services_built [OF run nc] obtain w1 :: world where
      s: "fst w' = (fst w1)\<lparr>services_cache := (services_cache (fst w1))(dp \<mapsto> col)\<rparr>" and
      wc: "wait_condition env cid dp ''ServicesResolved'' (VBool True) sched w = (Some (Inr ()), w1, rest)"
      by blast
    from wait_condition_resolved [OF wc assms]
    obtain v where "lookup_property (fst w1) dp DEVICE_INTERFACE ''ServicesResolved'' = Some v"
      "py_eq v (VBool True)" by blast
    with s have r: "\<exists>v. lookup_property (fst w') dp DEVICE_INTERFACE ''ServicesResolved'' = Some v \<and>
                        py_eq v (VBool True)"
      by (simp add: lookup_property_def)
    from s have "services_cache (fst w') dp = Some col" by simp
    then have "\<forall>cid' sched'. get_services api env cid' dp True sched' w' = (Some (Inr col), w', sched')"
      by (simp add: get_services_def)
    with r show "(\<exists>v. lookup_property (fst w') dp DEVICE_INTERFACE ''ServicesResolved'' = Some v \<and>
                      py_eq v (VBool True)) \<and>
                 (\<forall>cid' sched'. get_services api env cid' dp True sched' w' = (Some (Inr col), w', sched'))"
      by blast
  qed
  have p3: "\<forall>v. \<not> (use_cached \<and> services_cache (fst w) dp \<noteq> None) \<and>
              lookup_property (fst w) dp DEVICE_INTERFACE ''ServicesResolved'' = Some v \<and>
              \<not> py_eq v (VBool True) \<longrightarrow>
              fst (get_services api env cid dp use_cached [] w) = None"
    by (auto simp: get_services_def wait_condition_def Let_def)
  from p1 p2 p3 show ?thesis by (intro conjI)
qed

lemma example_get_services_waits:
  "fst (get_services example_api (\<lambda>c s. []) 7 ''/org/bluez/hci0/dev_AA'' False
          [Signal example_resolved_signal] (example_unresolved, []))
     = Some (Inr empty_collection)"
  by (simp add: get_services_def wait_condition_def lookup_property_def example_unresolved_def
        manager_init_def example_resolved_signal_def properties_changed_def
        unpack_variants_def table_set_def changed_callbacks_def run_advertisement_callbacks_def
        unregister_condition_def children_def Let_def)

theorem get_services_cached_or_resolved_witness:
  "fst (get_services example_api (\<lambda>c s. []) 7 ''/org/bluez/hci0/dev_AA'' False []
          (example_unresolved, []))
     = None \<and>
   fst (get_services example_api (\<lambda>c s. []) 7 ''/org/bluez/hci0/dev_AA'' False
          [Signal example_resolved_signal] (example_unresolved, []))
     = Some (Inr empty_collection) \<and>
   fst (get_services example_api (\<lambda>c s. []) 8 ''/org/bluez/hci0/dev_AA'' True []
          (fst (snd (get_services example_api (\<lambda>c s. []) 7 ''/org/bluez/hci0/dev_AA'' False
             [Signal example_resolved_signal] (example_unresolved, [])))))
     = Some (Inr empty_collection)"
proof -
  let ?g = "\<lambda>sched. get_services example_api (\<lambda>c s. []) 7 ''/org/bluez/hci0/dev_AA'' False sched
              (example_unresolved, [])"
  have fresh: "\<forall>c \<in> set (condition_callbacks (fst (example_unresolved, []))). cc_id c \<noteq> 7"
    by (simp add: example_unresolved_def manager_init_def)
  have nc: "\<not> (False \<and> services_cache (fst (example_unresolved, [])) ''/org/bluez/hci0/dev_AA'' \<noteq> None)"
    by simp
  have lk: "lookup_property (fst (example_unresolved, [])) ''/org/bluez/hci0/dev_AA'' DEVICE_INTERFACE
              ''ServicesResolved'' = Some (VBool False) \<and> \<not> py_eq (VBool False) (VBool True)"
    by (simp add: lookup_property_def example_unresolved_def manager_init_def)
  note inst = get_services_cached_or_resolved [OF fresh, of False "''/org/bluez/hci0/dev_AA''"
                example_api "\<lambda>c s. []"]
  from inst [of "[]"] nc lk have p: "fst (?g []) = None" by blast
  have r: "fst (?g [Signal example_resolved_signal]) = Some (Inr empty_collection)"
    by (rule example_get_services_waits)
  then have run: "?g [Signal example_resolved_signal]
      = (Some (Inr empty_collection), fst (snd (?g [Signal example_resolved_signal])),
         snd (snd (?g [Signal example_resolved_signal])))"
    by (metis prod.collapse)
  from inst [of "[Signal example_resolved_signal]"] nc run
  have "get_services example_api (\<lambda>c s. []) 8 ''/org/bluez/hci0/dev_AA'' True []
          (fst (snd (?g [Signal example_resolved_signal])))
        = (Some (Inr empty_collection), fst (snd (?g [Signal example_resolved_signal])), [])"
    by blast
  with p r show ?thesis by simp
qed

section \<open>Callbacks that change the set of device watchers\<close>

lemma interface_names_differ [simp]:
  "DEVICE_INTERFACE \<noteq> GATT_SERVICE_INTERFACE" "DEVICE_INTERFACE \<noteq> GATT_CHARACTERISTIC_INTERFACE"
  "DEVICE_INTERFACE \<noteq> GATT_DESCRIPTOR_INTERFACE" "GATT_SERVICE_INTERFACE \<noteq> DEVICE_INTERFACE"
  "GATT_SERVICE_INTERFACE \<noteq> GATT_CHARACTERISTIC_INTERFACE"
  "GATT_SERVICE_INTERFACE \<noteq> GATT_DESCRIPTOR_INTERFACE"
  "GATT_CHARACTERISTIC_INTERFACE \<noteq> DEVICE_INTERFACE"
  "GATT_CHARACTERISTIC_INTERFACE \<noteq> GATT_SERVICE_INTERFACE"
  "GATT_CHARACTERISTIC_INTERFACE \<noteq> GATT_DESCRIPTOR_INTERFACE"
  "GATT_DESCRIPTOR_INTERFACE \<noteq> DEVICE_INTERFACE" "GATT_DESCRIPTOR_INTERFACE \<noteq> GATT_SERVICE_INTERFACE"
  "GATT_DESCRIPTOR_INTERFACE \<noteq> GATT_CHARACTERISTIC_INTERFACE"
  by (simp_all add: DEVICE_INTERFACE_def GATT_SERVICE_INTERFACE_def
        GATT_CHARACTERISTIC_INTERFACE_def GATT_DESCRIPTOR_INTERFACE_def)

text \<open>
  Claim C2. The loop for a change of \<open>Connected\<close> walks a copy of the watcher set: the
  first watcher unregisters itself, the handler ends normally and both watchers have
  been called. The loop for a change of \<open>Value\<close> walks the set itself: when the first
  watcher unregisters itself there, the handler ends with RuntimeError and the second
  watcher, registered all along, is never called.
\<close>

theorem value_watchers_not_snapshotted:
  "fst (parse_msg example_self_removing example_disconnected_signal (example_two_watchers, []))
     = Inr () \<and>
   snd (snd (parse_msg example_self_removing example_disconnected_signal (example_two_watchers, [])))
     = [ConnectedChangedCall 10 (VBool False), ConnectedChangedCall 12 (VBool False)] \<and>
   fst (parse_msg example_self_removing example_value_signal (example_two_watchers, []))
     = Inl RuntimeError \<and>
   snd (snd (parse_msg example_self_removing example_value_signal (example_two_watchers, [])))
     = [ValueChangedCall 11 ''/org/bluez/hci0/dev_AA/service0010/char0011'' (VBytes [1, 2])] \<and>
   device_watchers
       (fst (snd (parse_msg example_self_removing example_value_signal (example_two_watchers, []))))
     = [example_watcher_b]"
  by (simp add: example_two_watchers_def manager_init_def example_self_removing_def
        example_value_signal_def example_disconnected_signal_def properties_changed_def
        unpack_variants_def table_set_def changed_callbacks_def run_advertisement_callbacks_def
        invoke_def remove_device_watcher_def example_watcher_a_def example_watcher_b_def Let_def)

section \<open>Properties of the hierarchy index\<close>

lemma lookup_interface_table_add [simp]:
  "lookup_interface (table_add p i ps s) c j =
     (if c = p \<and> j = i then Some ps else lookup_interface s c j)"
  by (auto simp: lookup_interface_def table_add_def split: option.splits)

lemma lookup_interface_table_remove [simp]:
  "lookup_interface (table_remove p i s) c j =
     (if c = p \<and> j = i then None else lookup_interface s c j)"
  by (auto simp: lookup_interface_def table_remove_def split: option.splits)

lemma lookup_interface_table_set [simp]:
  "lookup_interface (table_set p i ps s) c j =
     (if c = p \<and> j = i \<and> properties s p \<noteq> None then Some ps else lookup_interface s c j)"
  by (auto simp: lookup_interface_def table_set_def split: option.splits)

lemma carries_cong:
  "lookup_interface s' child i = lookup_interface s child i \<Longrightarrow>
   carries s' i k parent child = carries s i k parent child"
  by (simp add: carries_def)

lemma index_matches_frame:
  "index_matches m s i k \<Longrightarrow> (\<And>c. lookup_interface s' c i = lookup_interface s c i) \<Longrightarrow>
   index_matches m s' i k"
  by (simp add: index_matches_def carries_def)

lemma children_index_add:
  "set (children (index_add m d p) parent) =
     (if parent = d then insert p (set (children m d)) else set (children m parent))"
  by (auto simp: children_def index_add_def split: option.splits)

lemma index_matches_add:
  assumes im: "index_matches m s i k"
    and new: "lookup_interface s1 p i = Some ps"
    and old: "\<And>c. c \<noteq> p \<Longrightarrow> lookup_interface s1 c i = lookup_interface s c i"
    and kp: "\<And>parent. carries s i k parent p \<Longrightarrow> ps k = Some (VStr parent)"
  shows "case parent_ref ps k of
           Inl e \<Rightarrow> index_matches m s1 i k
         | Inr d \<Rightarrow> index_matches (index_add m d p) s1 i k"
proof (cases "parent_ref ps k")
  case (Inl e)
  then have np: "\<And>parent. ps k \<noteq> Some (VStr parent)"
    by (auto simp: parent_ref_def split: option.splits dbus_value.splits)
  have "child \<in> set (children m parent) \<longleftrightarrow> carries s1 i k parent child" for parent child
  proof (cases "child = p")
    case True
    from kp np have "\<not> carries s i k parent p" by blast
    with im True have "child \<notin> set (children m parent)" by (simp add: index_matches_def)
    moreover from new np True have "\<not> carries s1 i k parent child" by (simp add: carries_def)
    ultimately show ?thesis by simp
  next
    case False
    from old [OF False] have "carries s1 i k parent child = carries s i k parent child"
      by (rule carries_cong)
    with im show ?thesis by (simp add: index_matches_def)
  qed
  with Inl show ?thesis by (simp add: index_matches_def)
next
  case (Inr d)
  then have pd: "ps k = Some (VStr d)"
    by (auto simp: parent_ref_def split: option.splits dbus_value.splits)
  have "child \<in> set (children (index_add m d p) parent) \<longleftrightarrow> carries s1 i k parent child"
    for parent child
  proof (cases "child = p")
    case True
    have "carries s1 i k parent p \<longleftrightarrow> parent = d" using new pd by (auto simp: carries_def)
    moreover have "p \<in> set (children m parent) \<Longrightarrow> parent = d"
    proof -
      assume "p \<in> set (children m parent)"
      with im have "carries s i k parent p" by (simp add: index_matches_def)
      from kp [OF this] pd show "parent = d" by simp
    qed
    ultimately show ?thesis using True by (auto simp: children_index_add)
  next
    case False
    from old [OF False] have "carries s1 i k parent child = carries s i k parent child"
      by (rule carries_cong)
    with im False show ?thesis by (auto simp: index_matches_def children_index_add)
  qed
  with Inr show ?thesis by (simp add: index_matches_def)
qed

lemma keeps_parent_carries:
  "keeps_parent s p i ps \<Longrightarrow> parent_key i = Some k \<Longrightarrow> carries s i k parent p \<Longrightarrow>
   ps k = Some (VStr parent)"
  by (auto simp: keeps_parent_def carries_def split: option.splits)


lemma lookup_interface_other_fields [simp]:
  "lookup_interface (s\<lparr>service_map := m\<rparr>) c j = lookup_interface s c j"
  "lookup_interface (s\<lparr>characteristic_map := m\<rparr>) c j = lookup_interface s c j"
  "lookup_interface (s\<lparr>descriptor_map := m\<rparr>) c j = lookup_interface s c j"
  "lookup_interface (s\<lparr>device_watchers := ws\<rparr>) c j = lookup_interface s c j"
  "lookup_interface (s\<lparr>bus := b\<rparr>) c j = lookup_interface s c j"
  by (simp_all add: lookup_interface_def)

lemma index_matches_other_fields [simp]:
  "index_matches m (s\<lparr>service_map := x\<rparr>) i k = index_matches m s i k"
  "index_matches m (s\<lparr>characteristic_map := x\<rparr>) i k = index_matches m s i k"
  "index_matches m (s\<lparr>descriptor_map := x\<rparr>) i k = index_matches m s i k"
  "index_matches m (s\<lparr>device_watchers := ws\<rparr>) i k = index_matches m s i k"
  "index_matches m (s\<lparr>services_cache := sc\<rparr>) i k = index_matches m s i k"
  "index_matches m (s\<lparr>bus := b\<rparr>) i k = index_matches m s i k"
  by (simp_all add: index_matches_def carries_def)

lemma table_add_maps [simp]:
  "service_map (table_add p i ps s) = service_map s"
  "characteristic_map (table_add p i ps s) = characteristic_map s"
  "descriptor_map (table_add p i ps s) = descriptor_map s"
  by (simp_all add: table_add_def)

lemma table_remove_maps [simp]:
  "service_map (table_remove p i s) = service_map s"
  "characteristic_map (table_remove p i s) = characteristic_map s"
  "descriptor_map (table_remove p i s) = descriptor_map s"
  by (simp_all add: table_remove_def split: option.splits)

lemma table_set_maps [simp]:
  "service_map (table_set p i ps s) = service_map s"
  "characteristic_map (table_set p i ps s) = characteristic_map s"
  "descriptor_map (table_set p i ps s) = descriptor_map s"
  by (simp_all add: table_set_def split: option.splits)

lemma parent_key_simps [simp]:
  "parent_key GATT_SERVICE_INTERFACE = Some ''Device''"
  "parent_key GATT_CHARACTERISTIC_INTERFACE = Some ''Service''"
  "parent_key GATT_DESCRIPTOR_INTERFACE = Some ''Characteristic''"
  "parent_key DEVICE_INTERFACE = None"
  by (simp_all add: parent_key_def)

lemma index_matches_table_add_other:
  "j \<noteq> i \<Longrightarrow> index_matches m (table_add p i ps s) j k = index_matches m s j k"
  by (simp add: index_matches_def carries_def)

lemma index_matches_own:
  assumes "index_matches m s i k" and "keeps_parent s p i ps" and "parent_key i = Some k"
  shows "case parent_ref ps k of
           Inl e \<Rightarrow> index_matches m (table_add p i ps s) i k
         | Inr d \<Rightarrow> index_matches (index_add m d p) (table_add p i ps s) i k"
proof (rule index_matches_add [OF assms(1)])
  show "lookup_interface (table_add p i ps s) p i = Some ps" by simp
  show "\<And>c. c \<noteq> p \<Longrightarrow> lookup_interface (table_add p i ps s) c i = lookup_interface s c i"
    by simp
  show "\<And>parent. carries s i k parent p \<Longrightarrow> ps k = Some (VStr parent)"
    using assms(2,3) by (rule keeps_parent_carries)
qed

lemma index_interface_exact:
  assumes ex: "index_exact s" and kp: "keeps_parent s p i ps"
  shows "case index_interface i ps p (table_add p i ps s) of
           Inl e \<Rightarrow> index_exact (table_add p i ps s)
         | Inr s2 \<Rightarrow> index_exact s2"
proof -
  let ?s1 = "table_add p i ps s"
  from ex have sv: "index_matches (service_map s) s GATT_SERVICE_INTERFACE ''Device''"
    and ch: "index_matches (characteristic_map s) s GATT_CHARACTERISTIC_INTERFACE ''Service''"
    and ds: "index_matches (descriptor_map s) s GATT_DESCRIPTOR_INTERFACE ''Characteristic''"
    by (simp_all add: index_exact_def)
  show ?thesis
  proof (cases "i = GATT_SERVICE_INTERFACE")
    case True
    from index_matches_own [OF sv kp [unfolded True]] ch ds True show ?thesis
      by (auto simp: index_interface_def index_exact_def index_matches_table_add_other
               split: sum.splits)
  next
    case ns: False
    show ?thesis
    proof (cases "i = GATT_CHARACTERISTIC_INTERFACE")
      case True
      from index_matches_own [OF ch kp [unfolded True]] sv ds True show ?thesis
        by (auto simp: index_interface_def index_exact_def index_matches_table_add_other
                 split: sum.splits)
    next
      case nc: False
      show ?thesis
      proof (cases "i = GATT_DESCRIPTOR_INTERFACE")
        case True
        from index_matches_own [OF ds kp [unfolded True]] sv ch True show ?thesis
          by (auto simp: index_interface_def index_exact_def index_matches_table_add_other
                   split: sum.splits)
      next
        case False
        with ns nc sv ch ds show ?thesis
          by (simp add: index_interface_def index_exact_def index_matches_table_add_other)
      qed
    qed
  qed
qed

lemma index_exact_only_watchers: "only_watchers s s' \<Longrightarrow> index_exact s' = index_exact s"
  by (auto simp: only_watchers_def index_exact_def)

lemma lookup_interface_only_watchers:
  "only_watchers s s' \<Longrightarrow> lookup_interface s' c j = lookup_interface s c j"
  by (auto simp: only_watchers_def)

lemma keeps_parent_cong:
  "lookup_interface s' p i = lookup_interface s p i \<Longrightarrow>
   keeps_parent s' p i ps = keeps_parent s p i ps"
  by (auto simp: keeps_parent_def split: option.splits)

lemma index_interface_lookup:
  "index_interface i ps p s = Inr s2 \<Longrightarrow> lookup_interface s2 c j = lookup_interface s c j"
  by (auto simp: index_interface_def split: if_splits sum.splits)

lemma interfaces_added_exact:
  "index_exact (fst w) \<Longrightarrow> distinct (map fst ifs) \<Longrightarrow>
   list_all (\<lambda>ip. keeps_parent (fst w) p (fst ip) (unpack_variants (snd ip))) ifs \<Longrightarrow>
   index_exact (fst (snd (interfaces_added env p ifs w)))"
proof (induction ifs arbitrary: w)
  case Nil
  then show ?case by simp
next
  case (Cons ip rest)
  let ?i = "fst ip" and ?ps = "unpack_variants (snd ip)"
  let ?s1 = "table_add p ?i ?ps (fst w)"
  from Cons.prems have kp: "keeps_parent (fst w) p ?i ?ps"
    and kr: "list_all (\<lambda>ip. keeps_parent (fst w) p (fst ip) (unpack_variants (snd ip))) rest"
    and dr: "distinct (map fst rest)" and ni: "?i \<notin> fst ` set rest"
    by auto
  note step = index_interface_exact [OF Cons.prems(1) kp]
  show ?case
  proof (cases "index_interface ?i ?ps p ?s1")
    case (Inl e)
    with step show ?thesis by (simp add: Let_def)
  next
    case (Inr s2)
    with step have e2: "index_exact s2" by simp
    have k2: "list_all (\<lambda>ip. keeps_parent s' p (fst ip) (unpack_variants (snd ip))) rest"
      if "\<And>c j. lookup_interface s' c j = lookup_interface s2 c j" for s'
    proof -
      have "keeps_parent s' p (fst ip') (unpack_variants (snd ip'))
              = keeps_parent (fst w) p (fst ip') (unpack_variants (snd ip'))"
        if "ip' \<in> set rest" for ip'
      proof (rule keeps_parent_cong)
        from that ni have "fst ip' \<noteq> ?i" by (metis imageI)
        then show "lookup_interface s' p (fst ip') = lookup_interface (fst w) p (fst ip')"
          using \<open>\<And>c j. lookup_interface s' c j = lookup_interface s2 c j\<close>
            index_interface_lookup [OF Inr] by simp
      qed
      with kr show ?thesis by (simp add: list_all_iff)
    qed
    show ?thesis
    proof (cases "?i = DEVICE_INTERFACE")
      case False
      from Cons.IH [of "(s2, snd w)"] e2 dr k2 [of s2] have
        "index_exact (fst (snd (interfaces_added env p rest (s2, snd w))))" by simp
      with Inr False show ?thesis by (simp add: Let_def)
    next
      case True
      obtain r w' where ra: "run_advertisement_callbacks env p ?ps (map fst (snd ip)) (s2, snd w) = (r, w')"
        by (metis surj_pair)
      with run_advertisement_callbacks_frame [of "(s2, snd w)" env p ?ps "map fst (snd ip)"]
      have ow: "only_watchers s2 (fst w')" by simp
      with e2 have e3: "index_exact (fst w')" by (simp add: index_exact_only_watchers)
      from ow have "\<And>c j. lookup_interface (fst w') c j = lookup_interface s2 c j"
        by (rule lookup_interface_only_watchers)
      from k2 [OF this] Cons.IH [of w'] e3 dr
      have "index_exact (fst (snd (interfaces_added env p rest w')))" by simp
      with Inr True ra e3 show ?thesis by (cases r) (simp_all add: Let_def)
    qed
  qed
qed

lemma parent_key_None:
  "parent_key i = None \<Longrightarrow>
   i \<noteq> GATT_SERVICE_INTERFACE \<and> i \<noteq> GATT_CHARACTERISTIC_INTERFACE \<and> i \<noteq> GATT_DESCRIPTOR_INTERFACE"
  by (auto simp: parent_key_def split: if_splits)

lemma table_remove_exact:
  assumes "index_exact s" and "parent_key i = None"
  shows "index_exact (table_remove p i s)"
proof -
  from parent_key_None [OF assms(2)]
  have "i \<noteq> GATT_SERVICE_INTERFACE" "i \<noteq> GATT_CHARACTERISTIC_INTERFACE"
    "i \<noteq> GATT_DESCRIPTOR_INTERFACE" by simp_all
  then have lk:
    "\<And>c. lookup_interface (table_remove p i s) c GATT_SERVICE_INTERFACE
            = lookup_interface s c GATT_SERVICE_INTERFACE"
    "\<And>c. lookup_interface (table_remove p i s) c GATT_CHARACTERISTIC_INTERFACE
            = lookup_interface s c GATT_CHARACTERISTIC_INTERFACE"
    "\<And>c. lookup_interface (table_remove p i s) c GATT_DESCRIPTOR_INTERFACE
            = lookup_interface s c GATT_DESCRIPTOR_INTERFACE"
    by auto
  from assms(1) have sv: "index_matches (service_map s) s GATT_SERVICE_INTERFACE ''Device''"
    and ch: "index_matches (characteristic_map s) s GATT_CHARACTERISTIC_INTERFACE ''Service''"
    and ds: "index_matches (descriptor_map s) s GATT_DESCRIPTOR_INTERFACE ''Characteristic''"
    by (simp_all add: index_exact_def)
  from index_matches_frame [OF sv lk(1)] index_matches_frame [OF ch lk(2)]
    index_matches_frame [OF ds lk(3)]
  show ?thesis by (simp add: index_exact_def)
qed

lemma interfaces_removed_exact:
  "index_exact (fst w) \<Longrightarrow>
   list_all (\<lambda>i. i \<noteq> DEVICE_INTERFACE \<and> parent_key i = None) ifs \<Longrightarrow>
   index_exact (fst (snd (interfaces_removed env p ifs w)))"
proof (induction ifs arbitrary: w)
  case Nil
  then show ?case by simp
next
  case (Cons i rest)
  from Cons.prems have nd: "i \<noteq> DEVICE_INTERFACE" and pk: "parent_key i = None"
    and rr: "list_all (\<lambda>i. i \<noteq> DEVICE_INTERFACE \<and> parent_key i = None) rest"
    by simp_all
  from Cons.prems(1) pk have "index_exact (table_remove p i (fst w))" by (rule table_remove_exact)
  from Cons.IH [of "(table_remove p i (fst w), snd w)"] this rr
  have "index_exact (fst (snd (interfaces_removed env p rest (table_remove p i (fst w), snd w))))"
    by simp
  with nd parent_key_None [OF pk] show ?case by (simp add: Let_def)
qed


lemma delete_invalidated_keeps:
  "k \<notin> set ivd \<Longrightarrow> snd (delete_invalidated ivd ps) k = ps k"
  by (induction ivd arbitrary: ps) (auto split: option.splits)

lemma unpack_variants_absent:
  "k \<notin> set (map fst ch) \<Longrightarrow> unpack_variants ch k = None"
  by (induction ch) (auto simp: unpack_variants_def)

lemma index_matches_table_set:
  assumes "index_matches m s j k"
    and "lookup_interface s p i = Some si"
    and "j = i \<Longrightarrow> ps k = si k"
  shows "index_matches m (table_set p i ps s) j k"
proof -
  have "carries (table_set p i ps s) j k parent child = carries s j k parent child" for parent child
  proof (cases "child = p \<and> j = i")
    case False
    then show ?thesis by (auto simp: carries_def)
  next
    case True
    from assms(2) have "properties s p \<noteq> None"
      by (auto simp: lookup_interface_def split: option.splits)
    with True assms(2,3) show ?thesis by (simp add: carries_def)
  qed
  with assms(1) show ?thesis by (simp add: index_matches_def)
qed

lemma table_set_exact:
  assumes "index_exact s"
    and "lookup_interface s p i = Some si"
    and "\<And>k. parent_key i = Some k \<Longrightarrow> ps k = si k"
  shows "index_exact (table_set p i ps s)"
proof -
  from assms(1) have sv: "index_matches (service_map s) s GATT_SERVICE_INTERFACE ''Device''"
    and ch: "index_matches (characteristic_map s) s GATT_CHARACTERISTIC_INTERFACE ''Service''"
    and ds: "index_matches (descriptor_map s) s GATT_DESCRIPTOR_INTERFACE ''Characteristic''"
    by (simp_all add: index_exact_def)
  have "index_matches (service_map s) (table_set p i ps s) GATT_SERVICE_INTERFACE ''Device''"
    using sv assms(2) by (rule index_matches_table_set) (simp add: assms(3))
  moreover
  have "index_matches (characteristic_map s) (table_set p i ps s) GATT_CHARACTERISTIC_INTERFACE ''Service''"
    using ch assms(2) by (rule index_matches_table_set) (simp add: assms(3))
  moreover
  have "index_matches (descriptor_map s) (table_set p i ps s) GATT_DESCRIPTOR_INTERFACE ''Characteristic''"
    using ds assms(2) by (rule index_matches_table_set) (simp add: assms(3))
  ultimately show ?thesis by (simp add: index_exact_def)
qed

lemma properties_changed_exact:
  assumes ex: "index_exact (fst w)"
    and safe: "index_safe (fst w) (PropertiesChanged mp i ch ivd)"
  shows "index_exact (fst (snd (properties_changed env mp i ch ivd w)))"
proof (cases mp)
  case None
  with ex show ?thesis by (simp add: properties_changed_def)
next
  case (Some p)
  show ?thesis
  proof (cases "lookup_interface (fst w) p i")
    case None
    with Some ex show ?thesis
      by (auto simp: properties_changed_def lookup_interface_def split: option.splits)
  next
    case si: (Some self_interface)
    then obtain ifs where ifs: "properties (fst w) p = Some ifs" "ifs i = Some self_interface"
      by (auto simp: lookup_interface_def split: option.splits)
    obtain r ps where di: "delete_invalidated ivd (self_interface ++ unpack_variants ch) = (r, ps)"
      by (metis surj_pair)
    have same: "ps k = self_interface k" if "parent_key i = Some k" for k
    proof -
      from safe that have a: "k \<notin> set (map fst ch)" and b: "k \<notin> set ivd" by simp_all
      from delete_invalidated_keeps [OF b, of "self_interface ++ unpack_variants ch"] di
      have "ps k = (self_interface ++ unpack_variants ch) k" by simp
      with unpack_variants_absent [OF a] show ?thesis by (simp add: map_add_def)
    qed
    have e1: "index_exact (table_set p i ps (fst w))"
      using ex si same by (rule table_set_exact)
    show ?thesis
    proof (cases r)
      case (Inl e)
      with Some ifs di e1 show ?thesis by (simp add: properties_changed_def)
    next
      case (Inr u)
      from changed_callbacks_frame [of "(table_set p i ps (fst w), snd w)" env p i ps "map fst ch"] e1
      have "index_exact (fst (snd (changed_callbacks env p i ps (map fst ch)
              (table_set p i ps (fst w), snd w))))"
        by (simp add: index_exact_only_watchers)
      with Some ifs di Inr show ?thesis by (simp add: properties_changed_def)
    qed
  qed
qed

lemma parse_msg_exact:
  "index_exact (fst w) \<Longrightarrow> index_safe (fst w) m \<Longrightarrow> index_exact (fst (snd (parse_msg env m w)))"
proof (cases m)
  case (InterfacesAdded p ifs)
  assume "index_exact (fst w)" "index_safe (fst w) m"
  with InterfacesAdded show ?thesis by (simp add: interfaces_added_exact)
next
  case (InterfacesRemoved p ifs)
  assume "index_exact (fst w)" "index_safe (fst w) m"
  with InterfacesRemoved show ?thesis by (simp add: interfaces_removed_exact)
next
  case (PropertiesChanged mp i ch ivd)
  assume "index_exact (fst w)" "index_safe (fst w) m"
  with PropertiesChanged show ?thesis using properties_changed_exact by simp
next
  case (OtherSignal member)
  assume "index_exact (fst w)"
  with OtherSignal show ?thesis by simp
next
  case NotSignal
  assume "index_exact (fst w)"
  with NotSignal show ?thesis by simp
qed

lemma deliver_exact:
  "index_exact (fst w) \<Longrightarrow> index_safe_run env ms w \<Longrightarrow> n \<le> length ms \<Longrightarrow>
   index_exact (fst (deliver env (take n ms) w))"
proof (induction ms arbitrary: w n)
  case Nil
  then show ?case by simp
next
  case (Cons m ms)
  show ?case
  proof (cases n)
    case 0
    with Cons.prems show ?thesis by simp
  next
    case (Suc n')
    from Cons.prems have "index_exact (fst (snd (parse_msg env m w)))"
      by (simp add: parse_msg_exact)
    moreover from Cons.prems have "index_safe_run env ms (snd (parse_msg env m w))" by simp
    moreover from Cons.prems Suc have "n' \<le> length ms" by simp
    ultimately have "index_exact (fst (deliver env (take n' ms) (snd (parse_msg env m w))))"
      by (rule Cons.IH)
    with Suc show ?thesis by simp
  qed
qed

lemma unpack_interfaces_lookup:
  "unpack_interfaces ifs j = map_option unpack_variants (map_of ifs j)"
  by (induction ifs) (auto simp: unpack_interfaces_def)

lemma unpack_variants_Nil [simp]: "unpack_variants [] = Map.empty"
  by (simp add: unpack_variants_def)

lemma index_matches_load:
  assumes im: "index_matches m s j k"
    and fresh: "lookup_interface s path j = None"
    and s1: "\<And>c. lookup_interface s1 c j
                  = (if c = path then unpack_interfaces ifs j else lookup_interface s c j)"
    and li: "load_index ifs j k path m = Inr m'"
  shows "index_matches m' s1 j k"
proof -
  from im fresh have nothere: "\<And>parent. path \<notin> set (children m parent)"
    by (simp add: index_matches_def carries_def)
  from im s1 have others: "\<And>parent child. child \<noteq> path \<Longrightarrow>
      child \<in> set (children m parent) \<longleftrightarrow> carries s1 j k parent child"
    by (simp add: index_matches_def carries_def)
  show ?thesis
  proof (cases "get_nonempty ifs j")
    case None
    with li have m': "m' = m" by (simp add: load_index_def)
    from None have "unpack_interfaces ifs j = None \<or> unpack_interfaces ifs j = Some Map.empty"
      by (auto simp: get_nonempty_def unpack_interfaces_lookup split: option.splits if_splits)
    with s1 have "\<And>parent. \<not> carries s1 j k parent path"
      by (auto simp: carries_def)
    then have "child \<in> set (children m parent) \<longleftrightarrow> carries s1 j k parent child"
      for parent child
      using nothere others by (cases "child = path") simp_all
    with m' show ?thesis by (simp add: index_matches_def)
  next
    case (Some ps)
    with li obtain d where d: "parent_ref ps k = Inr d" and m': "m' = index_add m d path"
      by (auto simp: load_index_def split: sum.splits)
    from d have pk: "ps k = Some (VStr d)"
      by (auto simp: parent_ref_def split: option.splits dbus_value.splits)
    from Some have "unpack_interfaces ifs j = Some ps"
      by (auto simp: get_nonempty_def unpack_interfaces_lookup split: option.splits if_splits)
    with s1 pk have c: "\<And>parent. carries s1 j k parent path \<longleftrightarrow> parent = d"
      by (auto simp: carries_def)
    have "child \<in> set (children m' parent) \<longleftrightarrow> carries s1 j k parent child" for parent child
    proof (cases "child = path")
      case True
      with c nothere m' show ?thesis by (auto simp: children_index_add)
    next
      case False
      with others [OF False] m' show ?thesis by (auto simp: children_index_add)
    qed
    then show ?thesis by (simp add: index_matches_def)
  qed
qed

lemma load_objects_exact:
  "index_exact s \<Longrightarrow> distinct (map fst objs) \<Longrightarrow> \<forall>p \<in> fst ` set objs. properties s p = None \<Longrightarrow>
   load_objects objs s = (Inr (), s') \<Longrightarrow> index_exact s'"
proof (induction objs arbitrary: s)
  case Nil
  then show ?case by simp
next
  case (Cons po rest)
  let ?p = "fst po" and ?ifs = "snd po"
  let ?s1 = "s\<lparr>properties := (properties s)(?p \<mapsto> unpack_interfaces ?ifs)\<rparr>"
  from Cons.prems(4) obtain sm cm dm where
    lsm: "load_index ?ifs GATT_SERVICE_INTERFACE ''Device'' ?p (service_map s) = Inr sm" and
    lcm: "load_index ?ifs GATT_CHARACTERISTIC_INTERFACE ''Service'' ?p (characteristic_map s) = Inr cm" and
    ldm: "load_index ?ifs GATT_DESCRIPTOR_INTERFACE ''Characteristic'' ?p (descriptor_map s) = Inr dm" and
    rec: "load_objects rest
            (?s1\<lparr>service_map := sm, characteristic_map := cm, descriptor_map := dm\<rparr>) = (Inr (), s')"
    by (auto simp: Let_def split: sum.splits)
  from Cons.prems(3) have fr: "properties s ?p = None" by simp
  then have fresh: "\<And>j. lookup_interface s ?p j = None" by (simp add: lookup_interface_def)
  have lk: "\<And>c j. lookup_interface ?s1 c j
               = (if c = ?p then unpack_interfaces ?ifs j else lookup_interface s c j)"
    by (simp add: lookup_interface_def)
  from Cons.prems(1) have sv: "index_matches (service_map s) s GATT_SERVICE_INTERFACE ''Device''"
    and ch: "index_matches (characteristic_map s) s GATT_CHARACTERISTIC_INTERFACE ''Service''"
    and ds: "index_matches (descriptor_map s) s GATT_DESCRIPTOR_INTERFACE ''Characteristic''"
    by (simp_all add: index_exact_def)
  from index_matches_load [OF sv fresh lk lsm] index_matches_load [OF ch fresh lk lcm]
    index_matches_load [OF ds fresh lk ldm]
  have e3: "index_exact (?s1\<lparr>service_map := sm, characteristic_map := cm, descriptor_map := dm\<rparr>)"
    by (simp add: index_exact_def)
  from Cons.prems(2) have dr: "distinct (map fst rest)" and np: "?p \<notin> fst ` set rest"
    by auto
  have f3: "\<forall>p \<in> fst ` set rest.
      properties (?s1\<lparr>service_map := sm, characteristic_map := cm, descriptor_map := dm\<rparr>) p = None"
  proof
    fix p
    assume p: "p \<in> fst ` set rest"
    with np have "p \<noteq> ?p" by blast
    moreover from p Cons.prems(3) have "properties s p = None" by auto
    ultimately show "properties (?s1\<lparr>service_map := sm, characteristic_map := cm,
                       descriptor_map := dm\<rparr>) p = None"
      by simp
  qed
  from Cons.IH [OF e3 dr f3 rec] show ?case .
qed

lemma clear_tables_exact: "index_exact (clear_tables s)"
  by (simp add: index_exact_def index_matches_def carries_def children_def lookup_interface_def
        clear_tables_def)

lemma async_init_loaded:
  assumes "bus (fst w0) \<noteq> Some True"
    and "async_init env ie w0 = (Inr (), w, tr)"
    and "snd (ie_managed_objects ie) = MethodReturn objects"
  shows "\<exists>s4 s5. load_objects objects (clear_tables s4) = (Inr (), s5) \<and> fst w = s5\<lparr>bus := Some True\<rparr>"
  using assms
  apply (auto simp: async_init_def init_setup_def await_checked_def await_reply_def assert_reply_def
        Let_def split: prod.splits sum.splits reply.splits)
  apply (rule exI, rule exI, rule conjI, assumption, rule refl)
  done

lemma async_init_exact:
  assumes "bus (fst w0) \<noteq> Some True"
    and "async_init env ie w0 = (Inr (), w, tr)"
    and "snd (ie_managed_objects ie) = MethodReturn objects"
    and "distinct (map fst objects)"
  shows "index_exact (fst w)"
proof -
  from async_init_loaded [OF assms(1-3)] obtain s4 s5 where
    ld: "load_objects objects (clear_tables s4) = (Inr (), s5)" and w: "fst w = s5\<lparr>bus := Some True\<rparr>"
    by blast
  have "\<forall>p \<in> fst ` set objects. properties (clear_tables s4) p = None"
    by (simp add: clear_tables_def)
  from load_objects_exact [OF clear_tables_exact assms(4) this ld] w show ?thesis
    by (simp add: index_exact_def)
qed

lemma example_enumerated_run:
  "async_init (\<lambda>c s. []) (example_init_env (MethodReturn example_objects)) (manager_init, [])
     = (Inr (), example_enumerated,
        snd (snd (async_init (\<lambda>c s. []) (example_init_env (MethodReturn example_objects))
                    (manager_init, []))))"
proof -
  have "fst (async_init (\<lambda>c s. []) (example_init_env (MethodReturn example_objects))
               (manager_init, [])) = Inr ()"
    by (simp add: async_init_def init_setup_def await_checked_def await_reply_def assert_reply_def
          example_init_env_def example_objects_def manager_init_def Let_def load_index_def
          get_nonempty_def unpack_variants_def parent_ref_def clear_tables_def)
  then show ?thesis unfolding example_enumerated_def by (metis prod.collapse)
qed

lemma example_enumerated_exact: "index_exact (fst example_enumerated)"
proof (rule async_init_exact [OF _ example_enumerated_run])
  show "bus (fst (manager_init, [])) \<noteq> Some True" by (simp add: manager_init_def)
  show "snd (ie_managed_objects (example_init_env (MethodReturn example_objects)))
          = MethodReturn example_objects"
    by (simp add: example_init_env_def)
  show "distinct (map fst example_objects)" by (simp add: example_objects_def)
qed

lemma example_enumerated_tables:
  "service_map (fst example_enumerated) ''/org/bluez/hci0/dev_AA''
     = Some [''/org/bluez/hci0/dev_AA/service0010'']"
  "properties (fst example_enumerated) ''/org/bluez/hci0/dev_AA/service0010''
     = Some (unpack_interfaces
        [(GATT_SERVICE_INTERFACE, [(''Device'', Variant ''o'' (VStr ''/org/bluez/hci0/dev_AA''))])])"
  "snd example_enumerated = []"
  by (simp_all add: example_enumerated_def async_init_def init_setup_def await_checked_def
        await_reply_def assert_reply_def example_init_env_def example_objects_def manager_init_def
        Let_def load_index_def get_nonempty_def unpack_variants_def parent_ref_def clear_tables_def
        index_add_def)

text \<open>
  Claim C1, as stated: after a bulk enumeration and any signals, each index map lists
  exactly the paths whose table entry carries the interface with its parent reference.
  The invariant holds after the enumeration; the daemon then removes the GATT service
  interface from the service object. The handler deletes the table entry of the
  interface and the characteristic index entry keyed by the service, but the service
  stays in the set of its device: an orphan.
\<close>

theorem index_orphan_after_removal_counterexample:
  "index_exact (fst example_enumerated) \<and>
   ''/org/bluez/hci0/dev_AA/service0010''
     \<in> set (children
         (service_map (fst (deliver (\<lambda>c s. [])
            [InterfacesRemoved ''/org/bluez/hci0/dev_AA/service0010'' [GATT_SERVICE_INTERFACE]]
            example_enumerated)))
         ''/org/bluez/hci0/dev_AA'') \<and>
   lookup_interface
       (fst (deliver (\<lambda>c s. [])
          [InterfacesRemoved ''/org/bluez/hci0/dev_AA/service0010'' [GATT_SERVICE_INTERFACE]]
          example_enumerated))
       ''/org/bluez/hci0/dev_AA/service0010'' GATT_SERVICE_INTERFACE
     = None \<and>
   \<not> index_exact
       (fst (deliver (\<lambda>c s. [])
          [InterfacesRemoved ''/org/bluez/hci0/dev_AA/service0010'' [GATT_SERVICE_INTERFACE]]
          example_enumerated))"
proof -
  let ?s = "fst (deliver (\<lambda>c s. [])
          [InterfacesRemoved ''/org/bluez/hci0/dev_AA/service0010'' [GATT_SERVICE_INTERFACE]]
          example_enumerated)"
  have a: "''/org/bluez/hci0/dev_AA/service0010''
             \<in> set (children (service_map ?s) ''/org/bluez/hci0/dev_AA'')"
    by (simp add: Let_def children_def example_enumerated_tables)
  have b: "lookup_interface ?s ''/org/bluez/hci0/dev_AA/service0010'' GATT_SERVICE_INTERFACE = None"
    by (simp add: Let_def)
  from b have "\<not> carries ?s GATT_SERVICE_INTERFACE ''Device'' ''/org/bluez/hci0/dev_AA''
                   ''/org/bluez/hci0/dev_AA/service0010''"
    by (simp add: carries_def)
  with a have "\<not> index_matches (service_map ?s) ?s GATT_SERVICE_INTERFACE ''Device''"
    unfolding index_matches_def by blast
  then have "\<not> index_exact ?s" by (simp add: index_exact_def)
  with example_enumerated_exact a b show ?thesis by simp
qed

text \<open>
  Claim C1, amended. After a successful bulk enumeration (the reply a dictionary, so its
  paths differ), every sequence of signals of the following kinds keeps the invariant,
  after every signal of the sequence: an object-added signal that gives no path an
  interface it already carries under another parent; a properties-changed signal that
  neither changes nor invalidates the parent reference of a GATT interface; an
  object-removed signal that names none of the device and GATT interfaces; and any
  other message. The invariant then holds whether or not the handler raises.
\<close>

theorem index_exact_without_removals:
  assumes "bus (fst w0) \<noteq> Some True"
    and "async_init env ie w0 = (Inr (), w, tr)"
    and "snd (ie_managed_objects ie) = MethodReturn objects"
    and "distinct (map fst objects)"
    and "index_safe_run env ms w"
    and "n \<le> length ms"
  shows "index_exact (fst (deliver env (take n ms) w))"
  using async_init_exact [OF assms(1-4)] assms(5,6) by (rule deliver_exact)


lemma example_enumerated_properties:
  "properties (fst example_enumerated) =
     [''/org/bluez/hci0/dev_AA'' \<mapsto>
        unpack_interfaces [(DEVICE_INTERFACE, [(''Connected'', Variant ''b'' (VBool True))])],
      ''/org/bluez/hci0/dev_AA/service0010'' \<mapsto>
        unpack_interfaces
          [(GATT_SERVICE_INTERFACE, [(''Device'', Variant ''o'' (VStr ''/org/bluez/hci0/dev_AA''))])]]"
  by (simp add: example_enumerated_def async_init_def init_setup_def await_checked_def
        await_reply_def assert_reply_def example_init_env_def example_objects_def manager_init_def
        Let_def load_index_def get_nonempty_def unpack_variants_def parent_ref_def clear_tables_def
        index_add_def)

lemma example_enumerated_registrations:
  "advertisement_callbacks (fst example_enumerated) = []"
  "condition_callbacks (fst example_enumerated) = []"
  "device_watchers (fst example_enumerated) = []"
  by (simp_all add: example_enumerated_def async_init_def init_setup_def await_checked_def
        await_reply_def assert_reply_def example_init_env_def example_objects_def manager_init_def
        Let_def load_index_def get_nonempty_def unpack_variants_def parent_ref_def clear_tables_def
        index_add_def)

lemma example_signals_safe: "index_safe_run (\<lambda>c s. []) example_signals example_enumerated"
  by (simp add: example_signals_def keeps_parent_def Let_def index_interface_def parent_ref_def
        unpack_variants_def properties_changed_def changed_callbacks_def
        run_advertisement_callbacks_def example_enumerated_tables lookup_interface_def
        example_enumerated_properties example_enumerated_registrations table_add_def table_set_def
        unpack_interfaces_def)

theorem index_exact_without_removals_witness:
  "length example_signals = 3 \<and>
   index_exact (fst (deliver (\<lambda>c s. []) (take 1 example_signals) example_enumerated)) \<and>
   index_exact (fst (deliver (\<lambda>c s. []) (take 2 example_signals) example_enumerated)) \<and>
   index_exact (fst (deliver (\<lambda>c s. []) (take 3 example_signals) example_enumerated))"
proof -
  have nb: "bus (fst (manager_init, [])) \<noteq> Some True" by (simp add: manager_init_def)
  have rp: "snd (ie_managed_objects (example_init_env (MethodReturn example_objects)))
              = MethodReturn example_objects"
    by (simp add: example_init_env_def)
  have di: "distinct (map fst example_objects)" by (simp add: example_objects_def)
  have len: "length example_signals = 3" by (simp add: example_signals_def)
  note inst = index_exact_without_removals
                [OF nb example_enumerated_run rp di example_signals_safe]
  from len inst [of 1] inst [of 2] inst [of 3] show ?thesis by simp
qed

end
